theory Spec2Isabelle
  imports Complex_Main "HOL-Library.Multiset" "HOL-Library.Log_Nat"
begin

section \<open>Data model\<close>

text \<open>
  The bot keeps its data in one shared object (\<open>state\<close> of the state module) and in the
  module-local \<open>rateLimit\<close> object of the exchange module. JavaScript numbers are
  modelled as exact reals (no rounding, no \<open>NaN\<close>, no infinities); the numeric fields of
  a trade hold the value that \<open>parseFloat\<close> returns for the exchange's text. The
  cost-basis replay is modelled a second time with the rounding of binary64 arithmetic,
  in a section of its own.
  \<open>Date.now()\<close> is an integer number of milliseconds. Objects used as dictionaries are
  association lists in insertion order, which is the order \<open>Object.values\<close>,
  \<open>Object.entries\<close> and \<open>for ... in\<close> enumerate keys that are not array indices; trade
  ids and asset names are taken to be neither array indices nor names that every object
  inherits. A stored trade or cost basis is an object, so a lookup is truthy exactly when
  the key is present. Logging is left out.
\<close>

record trade =
  t_pair :: string
  t_type :: string
  t_price :: real
  t_vol :: real
  t_cost :: real
  t_time :: real

record trade_history =
  th_trades :: "(string \<times> trade) list"
  th_lastFetchTime :: "int option"
  th_totalCount :: nat

record lot =
  lot_price :: real
  lot_amount :: real
  lot_remaining :: real
  lot_time :: real

record completed_trade =
  ct_sellTime :: real
  ct_sellPrice :: real
  ct_amount :: real
  ct_amountMatched :: real
  ct_pnl :: real
  ct_pnlPercent :: real

record cost_basis =
  cb_lots :: "lot list"
  cb_totalInvested :: real
  cb_totalReturned :: real
  cb_realizedPnL :: real
  cb_completedTrades :: "completed_trade list"

record activity =
  ra_asset :: string
  ra_pnl :: real
  ra_pnlPercent :: real
  ra_sellTime :: real
  ra_sellPrice :: real

record summary =
  sm_totalTrades :: nat
  sm_realizedPnL :: real
  sm_weeklyPnL :: real
  sm_winningTrades :: nat
  sm_losingTrades :: nat
  sm_winRate :: real
  sm_weeklyWinRate :: real

record trade_analytics =
  an_lastUpdate :: "int option"
  an_summary :: summary
  an_recentActivity :: "activity list"

record rate_limit =
  counter :: real
  maxCounter :: real
  lastDecay :: int
  decayRate :: real

text \<open>
  Calls that leave the process are recorded: every \<open>saveJSON\<close> call with the value it
  writes, and every \<open>TradesHistory\<close> request with its offset.
\<close>

datatype save_event =
    SaveTradeHistory trade_history
  | SaveCostBasis "(string \<times> cost_basis) list"
  | SaveAnalytics trade_analytics

text \<open>
  \<open>wallClock\<close> is the time of the latest clock observation and \<open>clockReads\<close> counts the
  \<open>Date.now()\<close> calls made so far. \<open>counterLog\<close> lists every value assigned to
  \<open>rateLimit.counter\<close>, oldest first. \<open>pairs\<close> maps a pair name to the \<open>base\<close> field of
  its entry in \<open>state.pairs\<close>. \<open>trades\<close> is \<open>state.trades\<close>, the recent trades with their
  ids.
\<close>

record bot =
  rateLimit :: rate_limit
  wallClock :: int
  clockReads :: nat
  counterLog :: "real list"
  pairs :: "string \<rightharpoonup> string"
  fullTradeHistory :: trade_history
  costBasis :: "(string \<times> cost_basis) list"
  tradeAnalytics :: trade_analytics
  trades :: "(string \<times> trade) list"
  saved :: "save_event list"
  fetched :: "nat list"

section \<open>Wall-clock time\<close>

text \<open>
  The environment supplies \<open>lat\<close>: \<open>lat k\<close> is the number of milliseconds that pass
  before the \<open>k\<close>-th call of \<open>Date.now()\<close>, on top of the time spent suspended in
  \<open>setTimeout\<close>. A timer suspends the caller for the requested number of milliseconds
  (a later wake-up is part of the next latency).
\<close>

definition dateNow :: "(nat \<Rightarrow> nat) \<Rightarrow> bot \<Rightarrow> int \<times> bot" where
  "dateNow lat st =
     (let now = wallClock st + int (lat (clockReads st))
      in (now, st\<lparr>wallClock := now, clockReads := Suc (clockReads st)\<rparr>))"

definition sleep :: "int \<Rightarrow> bot \<Rightarrow> bot" where
  "sleep ms st = st\<lparr>wallClock := wallClock st + ms\<rparr>"

section \<open>Rate limiting\<close>

text \<open>\<open>decayAt\<close> is the body of \<open>decayCounter\<close> once \<open>Date.now()\<close> has been read.\<close>

definition decayAt :: "int \<Rightarrow> rate_limit \<Rightarrow> rate_limit" where
  "decayAt now rl =
     (let elapsed = real_of_int (now - lastDecay rl) / 1000;
          decay = elapsed * decayRate rl
      in rl\<lparr>counter := max 0 (counter rl - decay), lastDecay := now\<rparr>)"

definition decayCounter :: "(nat \<Rightarrow> nat) \<Rightarrow> bot \<Rightarrow> bot" where
  "decayCounter lat st =
     (let (now, st1) = dateNow lat st;
          rl = decayAt now (rateLimit st1)
      in st1\<lparr>rateLimit := rl, counterLog := counterLog st1 @ [counter rl]\<rparr>)"

text \<open>
  The delay handed to \<open>setTimeout\<close>. The source configures \<open>decayRate\<close> as 0.33; with a
  rate of zero JavaScript divides to infinity, which the quotient here does not show, and
  the statements that depend on the delay assume a positive rate.
\<close>

definition waitTime :: "rate_limit \<Rightarrow> real \<Rightarrow> int" where
  "waitTime rl c = \<lceil>(counter rl + c - maxCounter rl) / decayRate rl\<rceil> * 1000 + 500"

text \<open>
  The \<open>while\<close> loop of \<open>waitForRateLimit\<close>, entered after the first decay pass. Each unit
  of fuel pays for one evaluation of the loop condition; \<open>None\<close> is a loop that has not
  ended when the fuel has.
\<close>

fun waitLoop :: "nat \<Rightarrow> (nat \<Rightarrow> nat) \<Rightarrow> real \<Rightarrow> bot \<Rightarrow> bot option" where
  "waitLoop 0 lat c st = None"
| "waitLoop (Suc fuel) lat c st =
     (if counter (rateLimit st) + c > maxCounter (rateLimit st)
      then waitLoop fuel lat c (decayCounter lat (sleep (waitTime (rateLimit st) c) st))
      else Some (st\<lparr>rateLimit := (rateLimit st)\<lparr>counter := counter (rateLimit st) + c\<rparr>,
                     counterLog := counterLog st @ [counter (rateLimit st) + c]\<rparr>))"

definition waitForRateLimit :: "nat \<Rightarrow> (nat \<Rightarrow> nat) \<Rightarrow> real \<Rightarrow> bot \<Rightarrow> bot option" where
  "waitForRateLimit fuel lat c st = waitLoop fuel lat c (decayCounter lat st)"


section \<open>Cost basis\<close>

text \<open>
  \<open>getAssetFromPair\<close>: the \<open>base\<close> of a known pair when it is a non-empty string, otherwise
  the pair name without a trailing \<open>ZEUR\<close> or \<open>EUR\<close> and then without a trailing \<open>.S\<close>.
\<close>

definition endsWith :: "string \<Rightarrow> string \<Rightarrow> bool" where
  "endsWith s suf = (length suf \<le> length s \<and> drop (length s - length suf) s = suf)"

definition dropEnd :: "nat \<Rightarrow> string \<Rightarrow> string" where
  "dropEnd n s = take (length s - n) s"

definition stripEUR :: "string \<Rightarrow> string" where
  "stripEUR s = (if endsWith s ''ZEUR'' then dropEnd 4 s
                 else if endsWith s ''EUR'' then dropEnd 3 s else s)"

definition stripDotS :: "string \<Rightarrow> string" where
  "stripDotS s = (if endsWith s ''.S'' then dropEnd 2 s else s)"

definition getAssetFromPair :: "(string \<rightharpoonup> string) \<Rightarrow> string \<Rightarrow> string" where
  "getAssetFromPair ps p =
     (case ps p of
        Some base \<Rightarrow> if base \<noteq> [] then base else stripDotS (stripEUR p)
      | None \<Rightarrow> stripDotS (stripEUR p))"

text \<open>
  The FIFO matching loop of a sell: \<open>remaining\<close>, \<open>costBasisUsed\<close>, \<open>amountMatched\<close> and the
  lot queue, whose head is \<open>cb.lots[0]\<close>.
\<close>

function fifo :: "real \<Rightarrow> real \<Rightarrow> real \<Rightarrow> lot list \<Rightarrow> real \<times> real \<times> real \<times> lot list" where
  "fifo remaining costBasisUsed amountMatched [] = (remaining, costBasisUsed, amountMatched, [])"
| "fifo remaining costBasisUsed amountMatched (l # ls) =
     (if remaining > 0 then
        (if lot_remaining l - min remaining (lot_remaining l) \<le> 0
         then fifo (remaining - min remaining (lot_remaining l))
                   (costBasisUsed + min remaining (lot_remaining l) * lot_price l)
                   (amountMatched + min remaining (lot_remaining l))
                   ls
         else fifo (remaining - min remaining (lot_remaining l))
                   (costBasisUsed + min remaining (lot_remaining l) * lot_price l)
                   (amountMatched + min remaining (lot_remaining l))
                   (l\<lparr>lot_remaining := lot_remaining l - min remaining (lot_remaining l)\<rparr> # ls))
      else (remaining, costBasisUsed, amountMatched, l # ls))"
  by pat_completeness auto
termination
  by (relation "measure (\<lambda>(remaining, costBasisUsed, amountMatched, lots).
                  2 * length lots + (if remaining > 0 then 1 else 0))") auto

definition emptyBasis :: cost_basis where
  "emptyBasis = \<lparr>cb_lots = [], cb_totalInvested = 0, cb_totalReturned = 0,
                  cb_realizedPnL = 0, cb_completedTrades = []\<rparr>"

definition processBuy :: "trade \<Rightarrow> cost_basis \<Rightarrow> cost_basis" where
  "processBuy t cb =
     cb\<lparr>cb_lots := cb_lots cb @ [\<lparr>lot_price = t_price t, lot_amount = t_vol t,
                                     lot_remaining = t_vol t, lot_time = t_time t\<rparr>],
        cb_totalInvested := cb_totalInvested cb + t_cost t\<rparr>"

definition processSell :: "trade \<Rightarrow> cost_basis \<Rightarrow> cost_basis" where
  "processSell t cb =
     (let amount = t_vol t;
          (remaining, costBasisUsed, amountMatched, lots) = fifo amount 0 0 (cb_lots cb);
          matchedSaleValue = (if amountMatched > 0 then (amountMatched / amount) * t_cost t else 0);
          pnl = matchedSaleValue - costBasisUsed
      in cb\<lparr>cb_lots := lots,
            cb_realizedPnL := (if amountMatched > 0 then cb_realizedPnL cb + pnl
                               else cb_realizedPnL cb),
            cb_totalReturned := cb_totalReturned cb + t_cost t,
            cb_completedTrades := cb_completedTrades cb @
              [\<lparr>ct_sellTime = t_time t, ct_sellPrice = t_price t, ct_amount = amount,
                ct_amountMatched = amountMatched,
                ct_pnl = (if amountMatched > 0 then pnl else 0),
                ct_pnlPercent = (if costBasisUsed > 0 then (pnl / costBasisUsed) * 100 else 0)\<rparr>]\<rparr>)"

text \<open>Assignment to a key that the dictionary already has keeps the key's position.\<close>

fun setKey :: "string \<Rightarrow> 'v \<Rightarrow> (string \<times> 'v) list \<Rightarrow> (string \<times> 'v) list" where
  "setKey k v [] = []"
| "setKey k v (e # es) = (if fst e = k then (k, v) # es else e # setKey k v es)"

text \<open>The body of the replay loop for one trade.\<close>

definition applyTrade ::
  "(string \<rightharpoonup> string) \<Rightarrow> trade \<Rightarrow> (string \<times> cost_basis) list \<Rightarrow> (string \<times> cost_basis) list" where
  "applyTrade ps t cbs =
     (let asset = getAssetFromPair ps (t_pair t);
          cbs1 = (case map_of cbs asset of None \<Rightarrow> cbs @ [(asset, emptyBasis)] | Some _ \<Rightarrow> cbs);
          cb = (case map_of cbs asset of None \<Rightarrow> emptyBasis | Some b \<Rightarrow> b)
      in if t_type t = ''buy'' then setKey asset (processBuy t cb) cbs1
         else if t_type t = ''sell'' then setKey asset (processSell t cb) cbs1
         else cbs1)"

definition replay ::
  "(string \<rightharpoonup> string) \<Rightarrow> (string \<times> trade) list \<Rightarrow> (string \<times> cost_basis) list" where
  "replay ps ledger = fold (applyTrade ps) (sort_key t_time (map snd ledger)) []"

section \<open>Analytics\<close>

definition allCompleted :: "(string \<times> cost_basis) list \<Rightarrow> (string \<times> completed_trade) list" where
  "allCompleted cbs = concat (map (\<lambda>(asset, cb). map (Pair asset) (cb_completedTrades cb)) cbs)"

definition totalPnL :: "(string \<times> cost_basis) list \<Rightarrow> real" where
  "totalPnL cbs = sum_list (map (\<lambda>(asset, cb). cb_realizedPnL cb) cbs)"

definition wins :: "(string \<times> cost_basis) list \<Rightarrow> nat" where
  "wins cbs = length (filter (\<lambda>(asset, t). ct_pnl t \<ge> 0) (allCompleted cbs))"

definition losses :: "(string \<times> cost_basis) list \<Rightarrow> nat" where
  "losses cbs = length (filter (\<lambda>(asset, t). \<not> ct_pnl t \<ge> 0) (allCompleted cbs))"

text \<open>
  The local variables \<open>weeklyPnL\<close>, \<open>weeklyWins\<close> and \<open>weeklyLosses\<close> of
  \<open>buildCostBasis\<close>, accumulated over the completed trades sold in the last seven days.
\<close>

definition oneWeekAgo :: "int \<Rightarrow> real" where
  "oneWeekAgo now = real_of_int (now - 7 * 24 * 60 * 60 * 1000) / 1000"

definition inWeek :: "int \<Rightarrow> (string \<times> cost_basis) list \<Rightarrow> (string \<times> completed_trade) list" where
  "inWeek now cbs = filter (\<lambda>(asset, t). ct_sellTime t \<ge> oneWeekAgo now) (allCompleted cbs)"

definition weeklyPnL :: "int \<Rightarrow> (string \<times> cost_basis) list \<Rightarrow> real" where
  "weeklyPnL now cbs = sum_list (map (\<lambda>(asset, t). ct_pnl t) (inWeek now cbs))"

definition weeklyWins :: "int \<Rightarrow> (string \<times> cost_basis) list \<Rightarrow> nat" where
  "weeklyWins now cbs = length (filter (\<lambda>(asset, t). ct_pnl t \<ge> 0) (inWeek now cbs))"

definition weeklyLosses :: "int \<Rightarrow> (string \<times> cost_basis) list \<Rightarrow> nat" where
  "weeklyLosses now cbs = length (filter (\<lambda>(asset, t). \<not> ct_pnl t \<ge> 0) (inWeek now cbs))"

text \<open>The entry pushed onto \<open>recentActivity\<close> for a completed trade of an asset.\<close>

definition toActivity :: "string \<times> completed_trade \<Rightarrow> activity" where
  "toActivity = (\<lambda>(asset, t).
     \<lparr>ra_asset = asset, ra_pnl = ct_pnl t, ra_pnlPercent = ct_pnlPercent t,
      ra_sellTime = ct_sellTime t, ra_sellPrice = ct_sellPrice t\<rparr>)"

definition recentActivity :: "(string \<times> cost_basis) list \<Rightarrow> activity list" where
  "recentActivity cbs = sort_key (\<lambda>a. - ra_sellTime a) (map toActivity (allCompleted cbs))"

definition displayedTrades :: "(string \<times> cost_basis) list \<Rightarrow> activity list" where
  "displayedTrades cbs = take 50 (recentActivity cbs)"

definition displayedPnL :: "(string \<times> cost_basis) list \<Rightarrow> real" where
  "displayedPnL cbs = sum_list (map ra_pnl (displayedTrades cbs))"

definition displayedWins :: "(string \<times> cost_basis) list \<Rightarrow> nat" where
  "displayedWins cbs = length (filter (\<lambda>t. ra_pnl t \<ge> 0) (displayedTrades cbs))"

definition displayedLosses :: "(string \<times> cost_basis) list \<Rightarrow> nat" where
  "displayedLosses cbs = length (filter (\<lambda>t. \<not> ra_pnl t \<ge> 0) (displayedTrades cbs))"

definition rate :: "nat \<Rightarrow> nat \<Rightarrow> real" where
  "rate w l = (if w + l > 0 then (real w / real (w + l)) * 100 else 0)"

definition summarize :: "(string \<times> cost_basis) list \<Rightarrow> summary" where
  "summarize cbs =
     \<lparr>sm_totalTrades = wins cbs + losses cbs,
      sm_realizedPnL = totalPnL cbs,
      sm_weeklyPnL = displayedPnL cbs,
      sm_winningTrades = wins cbs,
      sm_losingTrades = losses cbs,
      sm_winRate = rate (wins cbs) (losses cbs),
      sm_weeklyWinRate = rate (displayedWins cbs) (displayedLosses cbs)\<rparr>"

text \<open>
  \<open>buildCostBasis\<close> replaces \<open>state.costBasis\<close> by the replay of the whole ledger, reads the
  clock for \<open>oneWeekAgo\<close> and again for \<open>lastUpdate\<close>, replaces \<open>state.tradeAnalytics\<close> and
  saves both.
\<close>

definition buildCostBasis :: "(nat \<Rightarrow> nat) \<Rightarrow> bot \<Rightarrow> bot" where
  "buildCostBasis lat st =
     (let cbs = replay (pairs st) (th_trades (fullTradeHistory st));
          (now1, st1) = dateNow lat st;
          (now2, st2) = dateNow lat st1;
          an = \<lparr>an_lastUpdate = Some now2, an_summary = summarize cbs,
                an_recentActivity = displayedTrades cbs\<rparr>
      in st2\<lparr>costBasis := cbs, tradeAnalytics := an,
              saved := saved st2 @ [SaveCostBasis cbs, SaveAnalytics an]\<rparr>)"

text \<open>
  What the local variables \<open>weeklyPnL\<close>, \<open>weeklyWins\<close> and \<open>weeklyLosses\<close> hold when
  \<open>buildCostBasis\<close> returns.
\<close>

definition weeklyLocals :: "(nat \<Rightarrow> nat) \<Rightarrow> bot \<Rightarrow> real \<times> nat \<times> nat" where
  "weeklyLocals lat st =
     (let cbs = replay (pairs st) (th_trades (fullTradeHistory st));
          (now1, st1) = dateNow lat st
      in (weeklyPnL now1 cbs, weeklyWins now1 cbs, weeklyLosses now1 cbs))"

section \<open>Trade synchronisation\<close>

definition updateRecentTrades :: "nat \<Rightarrow> bot \<Rightarrow> bot" where
  "updateRecentTrades n st =
     st\<lparr>trades := take n (sort_key (\<lambda>(i, t). - t_time t) (th_trades (fullTradeHistory st)))\<rparr>"

text \<open>
  What one \<open>TradesHistory\<close> request resolves to: \<open>{error: true}\<close>, or the page's entries
  (none when the reply has no \<open>trades\<close>). The gateway maps the requested offset to the
  reply; within one sync every offset is requested at most once.
\<close>

datatype response = GatewayError | Page "(string \<times> trade) list"

text \<open>
  The \<open>for\<close> loop over the entries of a page, on the ledger's entries, \<open>newInPage\<close>,
  \<open>newTradesCount\<close> and \<open>hitExisting\<close>.
\<close>

fun mergeEntries ::
  "(string \<times> trade) list \<Rightarrow> (string \<times> trade) list \<times> nat \<times> nat \<times> bool
     \<Rightarrow> (string \<times> trade) list \<times> nat \<times> nat \<times> bool" where
  "mergeEntries [] acc = acc"
| "mergeEntries ((i, t) # es) (ledger, newInPage, newTradesCount, hitExisting) =
     (if map_of ledger i \<noteq> None
      then mergeEntries es (ledger, newInPage, newTradesCount, True)
      else mergeEntries es (ledger @ [(i, t)], Suc newInPage, Suc newTradesCount, hitExisting))"

text \<open>
  Two state changes of the loop body: issuing the \<open>TradesHistory\<close> request for an offset,
  and storing the merged entries as \<open>state.fullTradeHistory.trades\<close>.
\<close>

definition requested :: "nat \<Rightarrow> bot \<Rightarrow> bot" where
  "requested offset st = st\<lparr>fetched := fetched st @ [offset]\<rparr>"

definition withLedger :: "(string \<times> trade) list \<Rightarrow> bot \<Rightarrow> bot" where
  "withLedger ledger st = st\<lparr>fullTradeHistory := (fullTradeHistory st)\<lparr>th_trades := ledger\<rparr>\<rparr>"

text \<open>
  The \<open>while (!hitExisting)\<close> loop of \<open>fetchNewTrades\<close>; it returns \<open>newTradesCount\<close> and
  the state. Each unit of fuel pays for one evaluation of the loop condition, and the
  rate-limit wait inside gets the fuel that is left.
\<close>

fun fetchLoop ::
  "nat \<Rightarrow> (nat \<Rightarrow> nat) \<Rightarrow> (nat \<Rightarrow> response) \<Rightarrow> nat \<Rightarrow> nat \<Rightarrow> bool \<Rightarrow> bot \<Rightarrow> (nat \<times> bot) option" where
  "fetchLoop 0 lat gw offset newTradesCount hitExisting st = None"
| "fetchLoop (Suc fuel) lat gw offset newTradesCount hitExisting st =
     (if hitExisting then Some (newTradesCount, st)
      else case waitForRateLimit fuel lat 2 st of
        None \<Rightarrow> None
      | Some st1 \<Rightarrow>
          (let st2 = requested offset st1
           in case gw offset of
                GatewayError \<Rightarrow> Some (newTradesCount, st2)
              | Page entries \<Rightarrow>
                  if length entries = 0 then Some (newTradesCount, st2)
                  else
                    (let (ledger, newInPage, cnt, hit) =
                           mergeEntries entries
                             (th_trades (fullTradeHistory st2), 0, newTradesCount, hitExisting);
                         st3 = withLedger ledger st2
                     in if newInPage = 0 then Some (cnt, st3)
                        else if length entries < 50 then Some (cnt, st3)
                        else fetchLoop fuel lat gw (offset + 50) cnt hit st3)))"

text \<open>
  \<open>fetchNewTrades\<close> returns \<open>state.fullTradeHistory\<close>; the second component is the state it
  leaves behind.
\<close>

definition recordFetch :: "(nat \<Rightarrow> nat) \<Rightarrow> bot \<Rightarrow> bot" where
  "recordFetch lat st =
     (let h1 = (fullTradeHistory st)\<lparr>th_totalCount := length (th_trades (fullTradeHistory st))\<rparr>;
          (now, st1) = dateNow lat st;
          h2 = h1\<lparr>th_lastFetchTime := Some now\<rparr>
      in st1\<lparr>fullTradeHistory := h2, saved := saved st1 @ [SaveTradeHistory h2]\<rparr>)"

definition fetchNewTrades ::
  "nat \<Rightarrow> (nat \<Rightarrow> nat) \<Rightarrow> (nat \<Rightarrow> response) \<Rightarrow> bot \<Rightarrow> (trade_history \<times> bot) option" where
  "fetchNewTrades fuel lat gw st =
     (case fetchLoop fuel lat gw 0 0 False st of
        None \<Rightarrow> None
      | Some (newTradesCount, st1) \<Rightarrow>
          (let st2 = (if newTradesCount > 0 then recordFetch lat st1 else st1);
               st3 = buildCostBasis lat st2;
               st4 = updateRecentTrades 200 st3
           in Some (fullTradeHistory st4, st4)))"

section \<open>Cost basis in binary64 arithmetic\<close>

text \<open>
  A JavaScript number is an IEEE 754 binary64 value, and each arithmetic operation
  returns the exact result rounded to the nearest such value, a tie going to the even
  significand. \<open>round64\<close> is that rounding on the reals. For \<open>x \<noteq> 0\<close> with
  \<open>2 ^ e \<le> \<bar>x\<bar> < 2 ^ (e + 1)\<close>, where \<open>e\<close> is \<open>expo x\<close>, the binary64 values next to \<open>x\<close>
  are multiples of \<open>2 ^ (e - 52)\<close>, and multiples of \<open>2 ^ (- 1074)\<close> in the subnormal range,
  where \<open>e - 52\<close> is below \<open>- 1074\<close>. Overflow is left out: a result of magnitude
  \<open>2 ^ 1024\<close> or more, which JavaScript turns into \<open>Infinity\<close>, stays a real here.
  \<open>Math.min\<close> and the comparisons are exact.
\<close>

definition rne :: "real \<Rightarrow> int" where
  "rne y = (let n = \<lfloor>y\<rfloor>; d = y - of_int n
            in if d < 1/2 then n else if d > 1/2 then n + 1 else if even n then n else n + 1)"

definition expo :: "real \<Rightarrow> int" where
  "expo x = (if 1 \<le> \<bar>x\<bar> then bitlen \<lfloor>\<bar>x\<bar>\<rfloor> - 1 else - bitlen (\<lceil>1 / \<bar>x\<bar>\<rceil> - 1))"

definition quantum :: "real \<Rightarrow> real" where
  "quantum x = 2 powi (max (expo x - 52) (- 1074))"

definition round64 :: "real \<Rightarrow> real" where
  "round64 x = (if x = 0 then 0 else of_int (rne (x / quantum x)) * quantum x)"

text \<open>
  The FIFO matching loop with its four compound assignments rounded. \<open>used * lot.price\<close>
  is rounded before it is added to \<open>costBasisUsed\<close>.
\<close>

function fifo64 :: "real \<Rightarrow> real \<Rightarrow> real \<Rightarrow> lot list \<Rightarrow> real \<times> real \<times> real \<times> lot list" where
  "fifo64 remaining costBasisUsed amountMatched [] = (remaining, costBasisUsed, amountMatched, [])"
| "fifo64 remaining costBasisUsed amountMatched (l # ls) =
     (if remaining > 0 then
        (if round64 (lot_remaining l - min remaining (lot_remaining l)) \<le> 0
         then fifo64 (round64 (remaining - min remaining (lot_remaining l)))
                     (round64 (costBasisUsed + round64 (min remaining (lot_remaining l) * lot_price l)))
                     (round64 (amountMatched + min remaining (lot_remaining l)))
                     ls
         else fifo64 (round64 (remaining - min remaining (lot_remaining l)))
                     (round64 (costBasisUsed + round64 (min remaining (lot_remaining l) * lot_price l)))
                     (round64 (amountMatched + min remaining (lot_remaining l)))
                     (l\<lparr>lot_remaining := round64 (lot_remaining l - min remaining (lot_remaining l))\<rparr> # ls))
      else (remaining, costBasisUsed, amountMatched, l # ls))"
  by pat_completeness auto
termination
  by (relation "measure (\<lambda>(remaining, costBasisUsed, amountMatched, lots).
                  2 * length lots + (if remaining > 0 then 1 else 0))")
     (auto simp: round64_def min_def split: if_splits)

text \<open>
  The two branches of the replay loop body. \<open>parseFloat\<close> is \<open>round64\<close> of the decimal
  number that the exchange's text denotes; \<open>round64\<close> leaves a binary64 value as it is, so
  a numeric field of a trade may as well hold what \<open>parseFloat\<close> returns. \<open>trade.time\<close> is
  stored as it is.
\<close>

definition processBuy64 :: "trade \<Rightarrow> cost_basis \<Rightarrow> cost_basis" where
  "processBuy64 t cb =
     cb\<lparr>cb_lots := cb_lots cb @ [\<lparr>lot_price = round64 (t_price t), lot_amount = round64 (t_vol t),
                                     lot_remaining = round64 (t_vol t), lot_time = t_time t\<rparr>],
        cb_totalInvested := round64 (cb_totalInvested cb + round64 (t_cost t))\<rparr>"

definition processSell64 :: "trade \<Rightarrow> cost_basis \<Rightarrow> cost_basis" where
  "processSell64 t cb =
     (let amount = round64 (t_vol t);
          price = round64 (t_price t);
          cost = round64 (t_cost t);
          (remaining, costBasisUsed, amountMatched, lots) = fifo64 amount 0 0 (cb_lots cb);
          matchedSaleValue = (if amountMatched > 0
                              then round64 (round64 (amountMatched / amount) * cost) else 0);
          pnl = round64 (matchedSaleValue - costBasisUsed)
      in cb\<lparr>cb_lots := lots,
            cb_realizedPnL := (if amountMatched > 0 then round64 (cb_realizedPnL cb + pnl)
                               else cb_realizedPnL cb),
            cb_totalReturned := round64 (cb_totalReturned cb + cost),
            cb_completedTrades := cb_completedTrades cb @
              [\<lparr>ct_sellTime = t_time t, ct_sellPrice = price, ct_amount = amount,
                ct_amountMatched = amountMatched,
                ct_pnl = (if amountMatched > 0 then pnl else 0),
                ct_pnlPercent = (if costBasisUsed > 0
                                 then round64 (round64 (pnl / costBasisUsed) * 100) else 0)\<rparr>]\<rparr>)"

definition applyTrade64 ::
  "(string \<rightharpoonup> string) \<Rightarrow> trade \<Rightarrow> (string \<times> cost_basis) list \<Rightarrow> (string \<times> cost_basis) list" where
  "applyTrade64 ps t cbs =
     (let asset = getAssetFromPair ps (t_pair t);
          cbs1 = (case map_of cbs asset of None \<Rightarrow> cbs @ [(asset, emptyBasis)] | Some _ \<Rightarrow> cbs);
          cb = (case map_of cbs asset of None \<Rightarrow> emptyBasis | Some b \<Rightarrow> b)
      in if t_type t = ''buy'' then setKey asset (processBuy64 t cb) cbs1
         else if t_type t = ''sell'' then setKey asset (processSell64 t cb) cbs1
         else cbs1)"

text \<open>
  \<open>state.costBasis\<close> when the loop over the sorted trades has ended (lines 403 to 469 of
  \<open>buildCostBasis\<close>).
\<close>

definition replay64 ::
  "(string \<rightharpoonup> string) \<Rightarrow> (string \<times> trade) list \<Rightarrow> (string \<times> cost_basis) list" where
  "replay64 ps ledger = fold (applyTrade64 ps) (sort_key t_time (map snd ledger)) []"

section \<open>Quantities used in the statements\<close>

text \<open>The branch of the replay loop body taken for a trade, on the asset's cost basis.\<close>

definition stepBasis :: "trade \<Rightarrow> cost_basis \<Rightarrow> cost_basis" where
  "stepBasis t cb = (if t_type t = ''buy'' then processBuy t cb
                     else if t_type t = ''sell'' then processSell t cb else cb)"

text \<open>
  For an asset: the sum of \<open>remaining\<close> over its lots plus the sum of \<open>amountMatched\<close> over
  its completed trades (zero for an asset without an entry); the sum of the amounts of its
  buy trades as \<open>parseFloat\<close> returns them, the sum of their absolute values, and the number
  of its trades. The sums are sums of real numbers.
\<close>

definition heldPlusMatched :: "(string \<times> cost_basis) list \<Rightarrow> string \<Rightarrow> real" where
  "heldPlusMatched cbs a =
     (case map_of cbs a of
        None \<Rightarrow> 0
      | Some cb \<Rightarrow> sum_list (map lot_remaining (cb_lots cb))
                 + sum_list (map ct_amountMatched (cb_completedTrades cb)))"

definition buyAmounts64 :: "(string \<rightharpoonup> string) \<Rightarrow> string \<Rightarrow> trade list \<Rightarrow> real" where
  "buyAmounts64 ps a ts =
     sum_list (map (\<lambda>t. round64 (t_vol t))
       (filter (\<lambda>t. t_type t = ''buy'' \<and> getAssetFromPair ps (t_pair t) = a) ts))"

definition absBuyAmounts64 :: "(string \<rightharpoonup> string) \<Rightarrow> string \<Rightarrow> trade list \<Rightarrow> real" where
  "absBuyAmounts64 ps a ts =
     sum_list (map (\<lambda>t. \<bar>round64 (t_vol t)\<bar>)
       (filter (\<lambda>t. t_type t = ''buy'' \<and> getAssetFromPair ps (t_pair t) = a) ts))"

definition tradeCount :: "(string \<rightharpoonup> string) \<Rightarrow> string \<Rightarrow> trade list \<Rightarrow> nat" where
  "tradeCount ps a ts = length (filter (\<lambda>t. getAssetFromPair ps (t_pair t) = a) ts)"

text \<open>The unit roundoff of binary64, half the distance from 1 to the next value.\<close>

definition u64 :: real where
  "u64 = 1 / 2 ^ 53"

text \<open>
  Bookkeeping for the rounding analysis: the multiples of \<open>2 ^ (- 1074)\<close>, among which all
  binary64 values are; the sum of \<open>remaining\<close> over a lot queue and the sum of its absolute
  values; the sum of \<open>amountMatched\<close> over the completed trades of a cost basis; the cost
  basis of an asset in the dictionary, the empty one when the asset has no entry; the branch
  of the rounded loop body taken for a trade; and the invariant of the rounded replay for
  one asset after \<open>n\<close> of its trades, with \<open>B\<close> the sum of the absolute buy amounts and \<open>Bs\<close>
  the sum of the buy amounts so far.
\<close>

definition onGrid :: "real \<Rightarrow> bool" where
  "onGrid x = (of_int \<lfloor>x * 2 ^ 1074\<rfloor> = x * 2 ^ 1074)"

definition held :: "lot list \<Rightarrow> real" where
  "held ls = sum_list (map lot_remaining ls)"

definition heldAbs :: "lot list \<Rightarrow> real" where
  "heldAbs ls = sum_list (map (\<lambda>l. \<bar>lot_remaining l\<bar>) ls)"

definition matched :: "cost_basis \<Rightarrow> real" where
  "matched cb = sum_list (map ct_amountMatched (cb_completedTrades cb))"

definition basisOf :: "(string \<times> cost_basis) list \<Rightarrow> string \<Rightarrow> cost_basis" where
  "basisOf cbs a = (case map_of cbs a of None \<Rightarrow> emptyBasis | Some b \<Rightarrow> b)"

definition stepBasis64 :: "trade \<Rightarrow> cost_basis \<Rightarrow> cost_basis" where
  "stepBasis64 t cb = (if t_type t = ''buy'' then processBuy64 t cb
                       else if t_type t = ''sell'' then processSell64 t cb else cb)"

definition roundingInv :: "nat \<Rightarrow> real \<Rightarrow> real \<Rightarrow> cost_basis \<Rightarrow> bool" where
  "roundingInv n B Bs cb =
     ((\<forall>l\<in>set (cb_lots cb). onGrid (lot_remaining l))
      \<and> length (cb_lots cb) \<le> n \<and> 0 \<le> B
      \<and> heldAbs (cb_lots cb) \<le> (1 + u64) ^ (n - length (cb_lots cb)) * B
      \<and> \<bar>held (cb_lots cb) + matched cb - Bs\<bar>
           \<le> ((1 + u64) ^ (n - length (cb_lots cb)) - 1) * B)"

text \<open>
  The count window in the specification's words: all completed trades sorted by
  \<open>sellTime\<close> descending, the first 50 of them; with the P\&L sum and the win rate of a
  list of completed trades.
\<close>

definition spec_countWindow ::
  "(string \<times> completed_trade) list \<Rightarrow> (string \<times> completed_trade) list" where
  "spec_countWindow cs = take 50 (sort_key (\<lambda>(asset, t). - ct_sellTime t) cs)"

definition spec_pnlSum :: "(string \<times> completed_trade) list \<Rightarrow> real" where
  "spec_pnlSum w = sum_list (map (\<lambda>(asset, t). ct_pnl t) w)"

definition spec_winRate :: "(string \<times> completed_trade) list \<Rightarrow> real" where
  "spec_winRate w =
     (if w = [] then 0
      else real (length (filter (\<lambda>(asset, t). ct_pnl t \<ge> 0) w)) / real (length w) * 100)"

text \<open>
  What \<open>fetchNewTrades\<close> does after its loop, given the loop's \<open>newTradesCount\<close>.
\<close>

definition afterLoop :: "(nat \<Rightarrow> nat) \<Rightarrow> nat \<Rightarrow> bot \<Rightarrow> bot" where
  "afterLoop lat newTradesCount st1 =
     updateRecentTrades 200
       (buildCostBasis lat (if newTradesCount > 0 then recordFetch lat st1 else st1))"

text \<open>
  The stop rule in the specification's words: after a page, the sync stops when the gateway
  erred, when the page held no id that the ledger lacks, or when it held fewer than 50
  records.
\<close>

definition spec_stopsAfter :: "(string \<times> trade) list \<Rightarrow> response \<Rightarrow> bool" where
  "spec_stopsAfter ledger r =
     (case r of
        GatewayError \<Rightarrow> True
      | Page es \<Rightarrow> (\<forall>e\<in>set es. map_of ledger (fst e) \<noteq> None) \<or> length es < 50)"

text \<open>
  The stop rule of the loop: as above, and also when the page held an id that the ledger
  has.
\<close>

definition stopsAfter :: "(string \<times> trade) list \<Rightarrow> response \<Rightarrow> bool" where
  "stopsAfter ledger r =
     (case r of
        GatewayError \<Rightarrow> True
      | Page es \<Rightarrow> (\<forall>e\<in>set es. map_of ledger (fst e) \<noteq> None) \<or> length es < 50
                  \<or> (\<exists>e\<in>set es. map_of ledger (fst e) \<noteq> None))"

section \<open>Concrete inputs\<close>

text \<open>
  The state of a freshly started process with the rate limiter as configured, and an
  environment in which no time passes outside timers.
\<close>

definition initialState :: bot where
  "initialState =
     \<lparr>rateLimit = \<lparr>counter = 0, maxCounter = 15, lastDecay = 0, decayRate = 33 / 100\<rparr>,
      wallClock = 0, clockReads = 0, counterLog = [], pairs = Map.empty,
      fullTradeHistory = \<lparr>th_trades = [], th_lastFetchTime = None, th_totalCount = 0\<rparr>,
      costBasis = [],
      tradeAnalytics = \<lparr>an_lastUpdate = None,
        an_summary = \<lparr>sm_totalTrades = 0, sm_realizedPnL = 0, sm_weeklyPnL = 0,
                       sm_winningTrades = 0, sm_losingTrades = 0, sm_winRate = 0,
                       sm_weeklyWinRate = 0\<rparr>,
        an_recentActivity = []\<rparr>,
      trades = [], saved = [], fetched = []\<rparr>"

definition noLatency :: "nat \<Rightarrow> nat" where
  "noLatency k = 0"

definition sellX :: trade where
  "sellX = \<lparr>t_pair = ''XEUR'', t_type = ''sell'', t_price = 250, t_vol = 2, t_cost = 500,
            t_time = 1700000000\<rparr>"

text \<open>
  A ledger of one asset whose volumes are decimal fractions: a buy of 0.4, then a sell of
  0.1 and a sell of 0.3.
\<close>

definition decimalBuy :: trade where
  "decimalBuy = \<lparr>t_pair = ''XEUR'', t_type = ''buy'', t_price = 100, t_vol = 4/10, t_cost = 40,
                  t_time = 1700000000\<rparr>"

definition decimalSell1 :: trade where
  "decimalSell1 = \<lparr>t_pair = ''XEUR'', t_type = ''sell'', t_price = 110, t_vol = 1/10, t_cost = 11,
                    t_time = 1700000100\<rparr>"

definition decimalSell2 :: trade where
  "decimalSell2 = \<lparr>t_pair = ''XEUR'', t_type = ''sell'', t_price = 120, t_vol = 3/10, t_cost = 36,
                    t_time = 1700000200\<rparr>"

definition decimalLedger :: "(string \<times> trade) list" where
  "decimalLedger = [(''T1'', decimalBuy), (''T2'', decimalSell1), (''T3'', decimalSell2)]"

text \<open>Trade ids \<open>T\<close>, \<open>Tx\<close>, \<open>Txx\<close>, ...\<close>

definition tid :: "nat \<Rightarrow> string" where
  "tid k = CHR ''T'' # replicate k (CHR ''x'')"

text \<open>
  A ledger with one buy, one sell that is matched against it at time \<open>oldest\<close>, and fifty
  later sells without cost basis, all at time 2000; and a state holding it at clock time
  605800000 ms, when \<open>oneWeekAgo\<close> is 1000 s.
\<close>

definition weekBuy :: trade where
  "weekBuy = \<lparr>t_pair = ''XEUR'', t_type = ''buy'', t_price = 1, t_vol = 1, t_cost = 1,
              t_time = 0\<rparr>"

definition oldSell :: "real \<Rightarrow> trade" where
  "oldSell oldest = \<lparr>t_pair = ''XEUR'', t_type = ''sell'', t_price = 2, t_vol = 1, t_cost = 2,
                     t_time = oldest\<rparr>"

definition lateSell :: trade where
  "lateSell = \<lparr>t_pair = ''XEUR'', t_type = ''sell'', t_price = 2, t_vol = 1, t_cost = 2,
               t_time = 2000\<rparr>"

definition weekLedger :: "real \<Rightarrow> (string \<times> trade) list" where
  "weekLedger oldest =
     (''B'', weekBuy) # (''O'', oldSell oldest) # map (\<lambda>k. (tid k, lateSell)) [0..<50]"

definition weekState :: "real \<Rightarrow> bot" where
  "weekState oldest =
     initialState\<lparr>wallClock := 605800000,
       fullTradeHistory := \<lparr>th_trades = weekLedger oldest, th_lastFetchTime = Some 605000000,
                             th_totalCount = 52\<rparr>\<rparr>"

definition lateDone :: completed_trade where
  "lateDone = \<lparr>ct_sellTime = 2000, ct_sellPrice = 2, ct_amount = 1, ct_amountMatched = 0,
               ct_pnl = 0, ct_pnlPercent = 0\<rparr>"

definition oldDone :: "real \<Rightarrow> completed_trade" where
  "oldDone oldest = \<lparr>ct_sellTime = oldest, ct_sellPrice = 2, ct_amount = 1, ct_amountMatched = 1,
                     ct_pnl = 1, ct_pnlPercent = 100\<rparr>"

definition lateAct :: activity where
  "lateAct = \<lparr>ra_asset = ''X'', ra_pnl = 0, ra_pnlPercent = 0, ra_sellTime = 2000,
              ra_sellPrice = 2\<rparr>"

text \<open>
  A ledger that holds one trade, fetched last at clock time 1000 ms, at clock time 2000 ms;
  a page of fifty new trades, newest first; a page of 49 new trades followed by the trade
  that the ledger has; and gateways: one that serves the new page and then fails, one that
  serves the mixed page and has an unseen older trade behind it, one whose history is what
  the ledger has, and one that fails at once.
\<close>

definition knownTrade :: trade where
  "knownTrade = \<lparr>t_pair = ''XEUR'', t_type = ''buy'', t_price = 10, t_vol = 1, t_cost = 10,
                 t_time = 100\<rparr>"

definition newTrade :: "nat \<Rightarrow> trade" where
  "newTrade k = \<lparr>t_pair = ''XEUR'', t_type = ''sell'', t_price = 12, t_vol = 1, t_cost = 12,
                 t_time = 300 - real k\<rparr>"

definition olderTrade :: trade where
  "olderTrade = \<lparr>t_pair = ''XEUR'', t_type = ''buy'', t_price = 9, t_vol = 1, t_cost = 9,
                 t_time = 50\<rparr>"

definition scenarioState :: bot where
  "scenarioState =
     initialState\<lparr>wallClock := 2000,
       fullTradeHistory := \<lparr>th_trades = [(''K'', knownTrade)], th_lastFetchTime = Some 1000,
                             th_totalCount = 1\<rparr>\<rparr>"

definition freshPage :: "(string \<times> trade) list" where
  "freshPage = map (\<lambda>k. (tid k, newTrade k)) [0..<50]"

definition mixedPage :: "(string \<times> trade) list" where
  "mixedPage = map (\<lambda>k. (tid k, newTrade k)) [0..<49] @ [(''K'', knownTrade)]"

definition scenarioD :: "nat \<Rightarrow> response" where
  "scenarioD off = (if off = 0 then Page freshPage else GatewayError)"

definition mixedGateway :: "nat \<Rightarrow> response" where
  "mixedGateway off = (if off = 0 then Page mixedPage else Page [(tid 100, olderTrade)])"

definition unchangedGateway :: "nat \<Rightarrow> response" where
  "unchangedGateway off = (if off = 0 then Page [(''K'', knownTrade)] else Page [])"

definition errorGateway :: "nat \<Rightarrow> response" where
  "errorGateway off = GatewayError"


section \<open>Properties of the rate limiter\<close>

lemma decayAt_fields [simp]:
  "maxCounter (decayAt now rl) = maxCounter rl"
  "decayRate (decayAt now rl) = decayRate rl"
  "lastDecay (decayAt now rl) = now"
  "0 \<le> counter (decayAt now rl)"
  by (simp_all add: decayAt_def Let_def)

lemma decayCounter_fields [simp]:
  "maxCounter (rateLimit (decayCounter lat st)) = maxCounter (rateLimit st)"
  "decayRate (rateLimit (decayCounter lat st)) = decayRate (rateLimit st)"
  "0 \<le> counter (rateLimit (decayCounter lat st))"
  "counterLog (decayCounter lat st) = counterLog st @ [counter (rateLimit (decayCounter lat st))]"
  "pairs (decayCounter lat st) = pairs st"
  "fullTradeHistory (decayCounter lat st) = fullTradeHistory st"
  "costBasis (decayCounter lat st) = costBasis st"
  "tradeAnalytics (decayCounter lat st) = tradeAnalytics st"
  "trades (decayCounter lat st) = trades st"
  "saved (decayCounter lat st) = saved st"
  "fetched (decayCounter lat st) = fetched st"
  by (simp_all add: decayCounter_def dateNow_def Let_def)

lemma sleep_fields [simp]:
  "rateLimit (sleep ms st) = rateLimit st"
  "counterLog (sleep ms st) = counterLog st"
  "clockReads (sleep ms st) = clockReads st"
  "wallClock (sleep ms st) = wallClock st + ms"
  "pairs (sleep ms st) = pairs st"
  "fullTradeHistory (sleep ms st) = fullTradeHistory st"
  "costBasis (sleep ms st) = costBasis st"
  "tradeAnalytics (sleep ms st) = tradeAnalytics st"
  "trades (sleep ms st) = trades st"
  "saved (sleep ms st) = saved st"
  "fetched (sleep ms st) = fetched st"
  by (simp_all add: sleep_def)

lemma decay_after_sleep:
  assumes r: "0 < decayRate (rateLimit st)" and c: "c \<le> maxCounter (rateLimit st)"
    and l: "lastDecay (rateLimit st) \<le> wallClock st"
  shows "counter (rateLimit (decayCounter lat (sleep (waitTime (rateLimit st) c) st))) + c
           \<le> maxCounter (rateLimit st)"
proof -
  define x where "x = counter (rateLimit st) + c - maxCounter (rateLimit st)"
  define q where "q = x / decayRate (rateLimit st)"
  define k where "k = real_of_int \<lceil>q\<rceil>"
  define w where "w = real_of_int (waitTime (rateLimit st) c)"
  define now where "now = wallClock st + waitTime (rateLimit st) c + int (lat (clockReads st))"
  define elapsed where "elapsed = real_of_int (now - lastDecay (rateLimit st)) / 1000"
  have "w = k * 1000 + 500"
    by (simp add: w_def k_def q_def x_def waitTime_def)
  moreover have "q \<le> k"
    unfolding k_def by (rule le_of_int_ceiling)
  moreover have "w \<le> real_of_int (now - lastDecay (rateLimit st))"
    using l by (simp add: w_def now_def)
  ultimately have "q * 1000 \<le> real_of_int (now - lastDecay (rateLimit st))"
    by linarith
  then have e: "q \<le> elapsed"
    unfolding elapsed_def by (simp add: pos_le_divide_eq)
  have "x = q * decayRate (rateLimit st)"
    using r by (simp add: q_def)
  also have "\<dots> \<le> elapsed * decayRate (rateLimit st)"
    using e r by (simp only: mult_le_cancel_right_pos)
  finally have d: "counter (rateLimit st) - elapsed * decayRate (rateLimit st)
                     \<le> maxCounter (rateLimit st) - c"
    unfolding x_def by linarith
  have "counter (rateLimit (decayCounter lat (sleep (waitTime (rateLimit st) c) st)))
          = max 0 (counter (rateLimit st) - elapsed * decayRate (rateLimit st))"
    by (simp add: decayCounter_def dateNow_def decayAt_def sleep_def Let_def elapsed_def now_def)
  with d c show ?thesis
    by linarith
qed

lemma decayCounter_stamp:
  "lastDecay (rateLimit (decayCounter lat st)) = wallClock (decayCounter lat st)"
  by (simp add: decayCounter_def dateNow_def Let_def)


lemma decayCounter_clock [simp]:
  "wallClock (decayCounter lat st) = wallClock st + int (lat (clockReads st))"
  "clockReads (decayCounter lat st) = Suc (clockReads st)"
  by (simp_all add: decayCounter_def dateNow_def Let_def)

lemma waitLoop_Suc_over:
  "counter (rateLimit st) + c > maxCounter (rateLimit st) \<Longrightarrow>
     waitLoop (Suc fuel) lat c st
       = waitLoop fuel lat c (decayCounter lat (sleep (waitTime (rateLimit st) c) st))"
  by simp

lemma waitLoop_Suc_grant:
  "\<not> counter (rateLimit st) + c > maxCounter (rateLimit st) \<Longrightarrow>
     waitLoop (Suc fuel) lat c st
       = Some (st\<lparr>rateLimit := (rateLimit st)\<lparr>counter := counter (rateLimit st) + c\<rparr>,
                   counterLog := counterLog st @ [counter (rateLimit st) + c]\<rparr>)"
  by simp

lemma waitTime_nonneg:
  assumes "0 < decayRate rl" and "counter rl + c > maxCounter rl"
  shows "0 \<le> waitTime rl c"
proof -
  have "0 \<le> (counter rl + c - maxCounter rl) / decayRate rl"
    using assms by simp
  then have "0 \<le> \<lceil>(counter rl + c - maxCounter rl) / decayRate rl\<rceil>"
    by (simp add: zero_le_ceiling)
  then show ?thesis
    by (simp add: waitTime_def)
qed

lemma waitLoop_bound:
  "waitLoop fuel lat c st = Some st' \<Longrightarrow> counter (rateLimit st') \<le> maxCounter (rateLimit st')
     \<and> maxCounter (rateLimit st') = maxCounter (rateLimit st)
     \<and> decayRate (rateLimit st') = decayRate (rateLimit st)"
proof (induction fuel arbitrary: st)
  case 0
  then show ?case by simp
next
  case (Suc fuel)
  show ?case
  proof (cases "counter (rateLimit st) + c > maxCounter (rateLimit st)")
    case True
    let ?s = "decayCounter lat (sleep (waitTime (rateLimit st) c) st)"
    from True Suc.prems(1) have run: "waitLoop fuel lat c ?s = Some st'"
      by (simp only: waitLoop_Suc_over)
    from Suc.IH [OF run] show ?thesis by simp
  next
    case False
    from Suc.prems(1) have "st' = st\<lparr>rateLimit := (rateLimit st)\<lparr>counter := counter (rateLimit st) + c\<rparr>,
                   counterLog := counterLog st @ [counter (rateLimit st) + c]\<rparr>"
      by (simp only: waitLoop_Suc_grant [OF False] option.inject)
    with False Suc.prems show ?thesis by simp
  qed
qed

lemma waitLoop_frame:
  "waitLoop fuel lat c st = Some st' \<Longrightarrow> pairs st' = pairs st \<and> fullTradeHistory st' = fullTradeHistory st
     \<and> costBasis st' = costBasis st \<and> tradeAnalytics st' = tradeAnalytics st
     \<and> trades st' = trades st \<and> saved st' = saved st \<and> fetched st' = fetched st"
proof (induction fuel arbitrary: st)
  case 0
  then show ?case by simp
next
  case (Suc fuel)
  show ?case
  proof (cases "counter (rateLimit st) + c > maxCounter (rateLimit st)")
    case True
    let ?s = "decayCounter lat (sleep (waitTime (rateLimit st) c) st)"
    from True Suc.prems(1) have run: "waitLoop fuel lat c ?s = Some st'"
      by (simp only: waitLoop_Suc_over)
    from Suc.IH [OF run] show ?thesis by simp
  next
    case False
    from Suc.prems(1) have "st' = st\<lparr>rateLimit := (rateLimit st)\<lparr>counter := counter (rateLimit st) + c\<rparr>,
                   counterLog := counterLog st @ [counter (rateLimit st) + c]\<rparr>"
      by (simp only: waitLoop_Suc_grant [OF False] option.inject)
    with False Suc.prems show ?thesis by simp
  qed
qed

lemma waitLoop_stamp:
  "waitLoop fuel lat c st = Some st' \<Longrightarrow> lastDecay (rateLimit st) = wallClock st \<Longrightarrow>
     lastDecay (rateLimit st') = wallClock st'"
proof (induction fuel arbitrary: st)
  case 0
  then show ?case by simp
next
  case (Suc fuel)
  show ?case
  proof (cases "counter (rateLimit st) + c > maxCounter (rateLimit st)")
    case True
    let ?s = "decayCounter lat (sleep (waitTime (rateLimit st) c) st)"
    from True Suc.prems(1) have run: "waitLoop fuel lat c ?s = Some st'"
      by (simp only: waitLoop_Suc_over)
    from Suc.IH [OF run decayCounter_stamp] show ?thesis .
  next
    case False
    from Suc.prems(1) have "st' = st\<lparr>rateLimit := (rateLimit st)\<lparr>counter := counter (rateLimit st) + c\<rparr>,
                   counterLog := counterLog st @ [counter (rateLimit st) + c]\<rparr>"
      by (simp only: waitLoop_Suc_grant [OF False] option.inject)
    with False Suc.prems show ?thesis by simp
  qed
qed

lemma waitLoop_mono:
  "waitLoop fuel lat c st = Some st' \<Longrightarrow> 0 < decayRate (rateLimit st) \<Longrightarrow> wallClock st \<le> wallClock st'"
proof (induction fuel arbitrary: st)
  case 0
  then show ?case by simp
next
  case (Suc fuel)
  show ?case
  proof (cases "counter (rateLimit st) + c > maxCounter (rateLimit st)")
    case True
    let ?s = "decayCounter lat (sleep (waitTime (rateLimit st) c) st)"
    from True Suc.prems(1) have run: "waitLoop fuel lat c ?s = Some st'"
      by (simp only: waitLoop_Suc_over)
    have "0 < decayRate (rateLimit ?s)" using Suc.prems(2) by simp
    from Suc.IH [OF run this] have "wallClock ?s \<le> wallClock st'" .
    moreover have "wallClock st \<le> wallClock ?s"
      using waitTime_nonneg [OF Suc.prems(2) True] by simp
    ultimately show ?thesis by linarith
  next
    case False
    from Suc.prems(1) have "st' = st\<lparr>rateLimit := (rateLimit st)\<lparr>counter := counter (rateLimit st) + c\<rparr>,
                   counterLog := counterLog st @ [counter (rateLimit st) + c]\<rparr>"
      by (simp only: waitLoop_Suc_grant [OF False] option.inject)
    with False Suc.prems show ?thesis by simp
  qed
qed

lemma waitLoop_nonneg:
  "waitLoop fuel lat c st = Some st' \<Longrightarrow> 0 \<le> c \<Longrightarrow> 0 \<le> counter (rateLimit st) \<Longrightarrow>
     \<forall>x\<in>set (counterLog st). 0 \<le> x \<Longrightarrow>
     0 \<le> counter (rateLimit st') \<and> (\<forall>x\<in>set (counterLog st'). 0 \<le> x)"
proof (induction fuel arbitrary: st)
  case 0
  then show ?case by simp
next
  case (Suc fuel)
  show ?case
  proof (cases "counter (rateLimit st) + c > maxCounter (rateLimit st)")
    case True
    let ?s = "decayCounter lat (sleep (waitTime (rateLimit st) c) st)"
    from True Suc.prems(1) have run: "waitLoop fuel lat c ?s = Some st'"
      by (simp only: waitLoop_Suc_over)
    have "\<forall>x\<in>set (counterLog ?s). 0 \<le> x" using Suc.prems(4) by simp
    with Suc.IH [OF run Suc.prems(2)] show ?thesis by simp
  next
    case False
    from Suc.prems(1) have "st' = st\<lparr>rateLimit := (rateLimit st)\<lparr>counter := counter (rateLimit st) + c\<rparr>,
                   counterLog := counterLog st @ [counter (rateLimit st) + c]\<rparr>"
      by (simp only: waitLoop_Suc_grant [OF False] option.inject)
    with False Suc.prems show ?thesis by simp
  qed
qed

lemma waitForRateLimit_post:
  assumes w: "waitForRateLimit fuel lat c st = Some st'"
  shows "counter (rateLimit st') \<le> maxCounter (rateLimit st')"
    and "maxCounter (rateLimit st') = maxCounter (rateLimit st)"
    and "decayRate (rateLimit st') = decayRate (rateLimit st)"
    and "lastDecay (rateLimit st') = wallClock st'"
    and "0 < decayRate (rateLimit st) \<Longrightarrow> wallClock st \<le> wallClock st'"
    and "0 \<le> c \<Longrightarrow> \<forall>x\<in>set (counterLog st). 0 \<le> x \<Longrightarrow>
          0 \<le> counter (rateLimit st') \<and> (\<forall>x\<in>set (counterLog st'). 0 \<le> x)"
proof -
  have run: "waitLoop fuel lat c (decayCounter lat st) = Some st'"
    using w by (simp only: waitForRateLimit_def)
  from waitLoop_bound [OF run]
  show "counter (rateLimit st') \<le> maxCounter (rateLimit st')"
    and "maxCounter (rateLimit st') = maxCounter (rateLimit st)"
    and "decayRate (rateLimit st') = decayRate (rateLimit st)"
    by simp_all
  show "lastDecay (rateLimit st') = wallClock st'"
    by (rule waitLoop_stamp [OF run decayCounter_stamp])
  show "wallClock st \<le> wallClock st'" if "0 < decayRate (rateLimit st)"
  proof -
    have "0 < decayRate (rateLimit (decayCounter lat st))" using that by simp
    from waitLoop_mono [OF run this] show ?thesis by simp
  qed
  show "0 \<le> counter (rateLimit st') \<and> (\<forall>x\<in>set (counterLog st'). 0 \<le> x)"
    if "0 \<le> c" and "\<forall>x\<in>set (counterLog st). 0 \<le> x"
  proof -
    have "\<forall>x\<in>set (counterLog (decayCounter lat st)). 0 \<le> x" using that(2) by simp
    from waitLoop_nonneg [OF run that(1) _ this] show ?thesis by simp
  qed
qed

lemma waitForRateLimit_frame:
  assumes w: "waitForRateLimit fuel lat c st = Some st'"
  shows "pairs st' = pairs st \<and> fullTradeHistory st' = fullTradeHistory st
     \<and> costBasis st' = costBasis st \<and> tradeAnalytics st' = tradeAnalytics st
     \<and> trades st' = trades st \<and> saved st' = saved st \<and> fetched st' = fetched st"
proof -
  have run: "waitLoop fuel lat c (decayCounter lat st) = Some st'"
    using w by (simp only: waitForRateLimit_def)
  from waitLoop_frame [OF run] show ?thesis by simp
qed


lemma waitLoop_returns:
  assumes "0 < decayRate (rateLimit st)" "c \<le> maxCounter (rateLimit st)"
    and "lastDecay (rateLimit st) \<le> wallClock st"
  shows "\<exists>st'. waitLoop (Suc (Suc fuel)) lat c st = Some st'"
proof (cases "counter (rateLimit st) + c > maxCounter (rateLimit st)")
  case True
  let ?s = "decayCounter lat (sleep (waitTime (rateLimit st) c) st)"
  have "\<not> counter (rateLimit ?s) + c > maxCounter (rateLimit ?s)"
    using decay_after_sleep [OF assms, of lat] by simp
  then have "\<exists>st'. waitLoop (Suc fuel) lat c ?s = Some st'"
    by simp
  with True show ?thesis
    by simp
next
  case False
  then show ?thesis by simp
qed

lemma waitForRateLimit_returns:
  assumes "0 < decayRate (rateLimit st)" "c \<le> maxCounter (rateLimit st)"
  shows "\<exists>st'. waitForRateLimit (Suc (Suc fuel)) lat c st = Some st'"
  unfolding waitForRateLimit_def
  using waitLoop_returns [of "decayCounter lat st" c fuel lat] assms
  by (simp add: decayCounter_stamp)




section \<open>Properties of the cost-basis replay\<close>

lemma fifo_nomatch:
  "fifo r u m ls = (r', u', m', ls') \<Longrightarrow> \<forall>l\<in>set ls. 0 \<le> lot_remaining l \<Longrightarrow>
     m \<le> m' \<and> (m' = m \<longrightarrow> u' = u)"
proof (induction r u m ls rule: fifo.induct)
  case (1 remaining costBasisUsed amountMatched)
  then show ?case by simp
next
  case (2 remaining costBasisUsed amountMatched l ls)
  show ?case
  proof (cases "remaining > 0")
    case False
    with "2.prems" show ?thesis by simp
  next
    case True
    have nn: "0 \<le> min remaining (lot_remaining l)" using True "2.prems"(2) by simp
    show ?thesis
    proof (cases "lot_remaining l - min remaining (lot_remaining l) \<le> 0")
      case shift: True
      from True shift "2.prems" "2.IH"(1) [OF True shift]
      have "amountMatched + min remaining (lot_remaining l) \<le> m' \<and>
            (m' = amountMatched + min remaining (lot_remaining l) \<longrightarrow>
             u' = costBasisUsed + min remaining (lot_remaining l) * lot_price l)"
        by simp
      with nn show ?thesis by auto
    next
      case keep: False
      from True keep "2.prems" "2.IH"(2) [OF True keep]
      have "amountMatched + min remaining (lot_remaining l) \<le> m' \<and>
            (m' = amountMatched + min remaining (lot_remaining l) \<longrightarrow>
             u' = costBasisUsed + min remaining (lot_remaining l) * lot_price l)"
        by simp
      with nn show ?thesis by auto
    qed
  qed
qed

lemma map_of_setKey:
  "map_of (setKey k v xs) k' = (if k' = k \<and> map_of xs k \<noteq> None then Some v else map_of xs k')"
  by (induction xs) auto

lemma map_of_append_new:
  "map_of (xs @ [(k, v)]) k' =
     (case map_of xs k' of Some x \<Rightarrow> Some x | None \<Rightarrow> if k' = k then Some v else None)"
  by (induction xs) auto

lemma map_of_applyTrade:
  "map_of (applyTrade ps t cbs) a =
     (if a = getAssetFromPair ps (t_pair t)
      then Some (stepBasis t (case map_of cbs a of None \<Rightarrow> emptyBasis | Some b \<Rightarrow> b))
      else map_of cbs a)"
proof (cases "map_of cbs (getAssetFromPair ps (t_pair t))")
  case None
  then show ?thesis
    by (auto simp: applyTrade_def Let_def map_of_setKey map_add_def stepBasis_def
             split: option.split)
next
  case (Some b)
  then show ?thesis
    by (simp add: applyTrade_def Let_def map_of_setKey stepBasis_def)
qed

lemma buildCostBasis_fields:
  "costBasis (buildCostBasis lat st) = replay (pairs st) (th_trades (fullTradeHistory st))"
  "fullTradeHistory (buildCostBasis lat st) = fullTradeHistory st"
  "pairs (buildCostBasis lat st) = pairs st"
  "rateLimit (buildCostBasis lat st) = rateLimit st"
  "trades (buildCostBasis lat st) = trades st"
  "fetched (buildCostBasis lat st) = fetched st"
  "an_summary (tradeAnalytics (buildCostBasis lat st))
     = summarize (replay (pairs st) (th_trades (fullTradeHistory st)))"
  "an_recentActivity (tradeAnalytics (buildCostBasis lat st))
     = displayedTrades (replay (pairs st) (th_trades (fullTradeHistory st)))"
  "saved (buildCostBasis lat st)
     = saved st @ [SaveCostBasis (costBasis (buildCostBasis lat st)),
                   SaveAnalytics (tradeAnalytics (buildCostBasis lat st))]"
  by (simp_all add: buildCostBasis_def dateNow_def Let_def)

text \<open>
  Claim C5. With lots 1.0 at 10000 and 1.0 at 20000 (oldest first), a sell of 1.5 for a
  cost of 37500 matches 1.5, uses a cost basis of 20000, adds 17500 to \<open>realizedPnL\<close>,
  records that sale with \<open>amountMatched\<close> 1.5 and \<open>pnl\<close> 17500, and leaves one lot with 0.5
  remaining at 20000.
\<close>

theorem scenarioA:
  "fifo (3/2) 0 0 [\<lparr>lot_price = 10000, lot_amount = a1, lot_remaining = 1, lot_time = t1\<rparr>,
                   \<lparr>lot_price = 20000, lot_amount = a2, lot_remaining = 1, lot_time = t2\<rparr>]
     = (0, 20000, 3/2, [\<lparr>lot_price = 20000, lot_amount = a2, lot_remaining = 1/2, lot_time = t2\<rparr>])
   \<and> processSell (t\<lparr>t_vol := 3/2, t_cost := 37500\<rparr>)
        (cb\<lparr>cb_lots := [\<lparr>lot_price = 10000, lot_amount = a1, lot_remaining = 1, lot_time = t1\<rparr>,
                         \<lparr>lot_price = 20000, lot_amount = a2, lot_remaining = 1, lot_time = t2\<rparr>]\<rparr>)
     = cb\<lparr>cb_lots := [\<lparr>lot_price = 20000, lot_amount = a2, lot_remaining = 1/2, lot_time = t2\<rparr>],
          cb_realizedPnL := cb_realizedPnL cb + 17500,
          cb_totalReturned := cb_totalReturned cb + 37500,
          cb_completedTrades := cb_completedTrades cb @
            [\<lparr>ct_sellTime = t_time t, ct_sellPrice = t_price t, ct_amount = 3/2,
              ct_amountMatched = 3/2, ct_pnl = 17500, ct_pnlPercent = 175/2\<rparr>]\<rparr>"
  by (simp add: processSell_def Let_def)

lemma processSell_unmatched:
  assumes "\<forall>l\<in>set (cb_lots cb). 0 \<le> lot_remaining l"
    and "fifo (t_vol t) 0 0 (cb_lots cb) = (r, u, 0, ls)"
  shows "processSell t cb =
     cb\<lparr>cb_lots := ls,
        cb_totalReturned := cb_totalReturned cb + t_cost t,
        cb_completedTrades := cb_completedTrades cb @
          [\<lparr>ct_sellTime = t_time t, ct_sellPrice = t_price t, ct_amount = t_vol t,
            ct_amountMatched = 0, ct_pnl = 0, ct_pnlPercent = 0\<rparr>]\<rparr>"
proof -
  from fifo_nomatch [OF assms(2) assms(1)] have "u = 0" by simp
  with assms(2) show ?thesis
    by (simp add: processSell_def Let_def)
qed

text \<open>
  Claim C6. A sell that matches nothing (\<open>amountMatched = 0\<close>), in particular a sell for
  an asset without lots, leaves \<open>realizedPnL\<close> as it was, adds the sell's cost to
  \<open>totalReturned\<close> and appends a completed trade with \<open>pnl = 0\<close> and \<open>pnlPercent = 0\<close>.
\<close>

theorem sell_without_cost_basis:
  assumes "t_type t = ''sell''"
    and "cb = (case map_of cbs (getAssetFromPair ps (t_pair t)) of None \<Rightarrow> emptyBasis | Some b \<Rightarrow> b)"
    and "\<forall>l\<in>set (cb_lots cb). 0 \<le> lot_remaining l"
    and "fifo (t_vol t) 0 0 (cb_lots cb) = (r, u, 0, ls)"
  shows "map_of (applyTrade ps t cbs) (getAssetFromPair ps (t_pair t)) =
     Some (cb\<lparr>cb_lots := ls,
              cb_realizedPnL := cb_realizedPnL cb,
              cb_totalReturned := cb_totalReturned cb + t_cost t,
              cb_completedTrades := cb_completedTrades cb @
                [\<lparr>ct_sellTime = t_time t, ct_sellPrice = t_price t, ct_amount = t_vol t,
                  ct_amountMatched = 0, ct_pnl = 0, ct_pnlPercent = 0\<rparr>]\<rparr>)"
proof -
  have "map_of (applyTrade ps t cbs) (getAssetFromPair ps (t_pair t)) = Some (processSell t cb)"
    using assms(1,2) by (simp add: map_of_applyTrade stepBasis_def)
  with processSell_unmatched [OF assms(3,4)] show ?thesis
    by simp
qed

theorem sell_without_cost_basis_witness:
  "map_of (applyTrade Map.empty sellX []) ''X'' =
     Some \<lparr>cb_lots = [], cb_totalInvested = 0, cb_totalReturned = 500, cb_realizedPnL = 0,
           cb_completedTrades =
             [\<lparr>ct_sellTime = 1700000000, ct_sellPrice = 250, ct_amount = 2,
               ct_amountMatched = 0, ct_pnl = 0, ct_pnlPercent = 0\<rparr>]\<rparr>"
proof -
  have a: "getAssetFromPair Map.empty (t_pair sellX) = ''X''"
    by (simp add: getAssetFromPair_def stripDotS_def stripEUR_def endsWith_def dropEnd_def
          sellX_def)
  have "t_type sellX = ''sell''"
    and "emptyBasis = (case map_of [] (getAssetFromPair Map.empty (t_pair sellX)) of
                         None \<Rightarrow> emptyBasis | Some b \<Rightarrow> b)"
    and "\<forall>l\<in>set (cb_lots emptyBasis). 0 \<le> lot_remaining l"
    and "fifo (t_vol sellX) 0 0 (cb_lots emptyBasis) = (2, 0, 0, [])"
    by (simp_all add: sellX_def emptyBasis_def)
  from sell_without_cost_basis [OF this] show ?thesis
    by (simp add: a) (simp add: sellX_def emptyBasis_def)
qed

section \<open>Properties of the rebuild and its summary\<close>

text \<open>
  Claim C9. The rebuild reads only the ledger and the pair table and leaves both as they
  are, so a second rebuild, at whatever time it runs, produces the same per-asset cost
  basis as the first, and the same summary and recent-activity list.
\<close>

theorem rebuild_idempotent:
  "costBasis (buildCostBasis lat2 (buildCostBasis lat1 st)) = costBasis (buildCostBasis lat1 st)
   \<and> an_summary (tradeAnalytics (buildCostBasis lat2 (buildCostBasis lat1 st)))
       = an_summary (tradeAnalytics (buildCostBasis lat1 st))
   \<and> an_recentActivity (tradeAnalytics (buildCostBasis lat2 (buildCostBasis lat1 st)))
       = an_recentActivity (tradeAnalytics (buildCostBasis lat1 st))"
  by (simp add: buildCostBasis_fields)


lemma insort_key_map:
  "insort_key f (g x) (map g xs) = map g (insort_key (\<lambda>y. f (g y)) x xs)"
  by (induction xs) simp_all

lemma sort_key_map:
  "sort_key f (map g xs) = map g (sort_key (\<lambda>y. f (g y)) xs)"
  by (induction xs) (simp_all add: insort_key_map)

lemma displayedTrades_window:
  "displayedTrades cbs = map toActivity (spec_countWindow (allCompleted cbs))"
proof -
  have "(\<lambda>y. - ra_sellTime (toActivity y)) = (\<lambda>(asset, t). - ct_sellTime t)"
    by (auto simp: toActivity_def fun_eq_iff)
  then show ?thesis
    by (simp add: displayedTrades_def recentActivity_def spec_countWindow_def
          sort_key_map take_map)
qed

lemma displayedPnL_window:
  "displayedPnL cbs = spec_pnlSum (spec_countWindow (allCompleted cbs))"
proof -
  have "ra_pnl \<circ> toActivity = (\<lambda>(asset, t). ct_pnl t)"
    by (auto simp: toActivity_def fun_eq_iff)
  then show ?thesis
    by (simp add: displayedPnL_def displayedTrades_window spec_pnlSum_def)
qed

lemma displayed_rate_window:
  "rate (displayedWins cbs) (displayedLosses cbs) = spec_winRate (spec_countWindow (allCompleted cbs))"
proof -
  let ?w = "spec_countWindow (allCompleted cbs)"
  have p: "(\<lambda>t. ra_pnl t \<ge> 0) \<circ> toActivity = (\<lambda>(asset, t). ct_pnl t \<ge> 0)"
    by (auto simp: toActivity_def fun_eq_iff)
  have n: "(\<lambda>t. \<not> ra_pnl t \<ge> 0) \<circ> toActivity = (\<lambda>e. \<not> (\<lambda>(asset, t). ct_pnl t \<ge> 0) e)"
    by (auto simp: toActivity_def fun_eq_iff)
  have w: "displayedWins cbs = length (filter (\<lambda>(asset, t). ct_pnl t \<ge> 0) ?w)"
    by (simp add: displayedWins_def displayedTrades_window filter_map p)
  have l: "displayedLosses cbs = length (filter (\<lambda>e. \<not> (\<lambda>(asset, t). ct_pnl t \<ge> 0) e) ?w)"
    by (simp add: displayedLosses_def displayedTrades_window filter_map n)
  have s: "displayedWins cbs + displayedLosses cbs = length ?w"
    unfolding w l by (rule sum_length_filter_compl)
  show ?thesis
    unfolding rate_def s unfolding w spec_winRate_def by simp
qed

text \<open>
  Claim C2, as amended. The summary surfaces one windowed view, the count window: all
  completed trades sorted by \<open>sellTime\<close> descending, the first 50 of them, with that
  slice's own P\&L sum as \<open>weeklyPnL\<close>, its own win rate as \<open>weeklyWinRate\<close>, and the slice
  itself as \<open>recentActivity\<close>. The summary and the list are the same whatever the clock
  shows, so the seven-day window is not in them.
\<close>

theorem summary_count_window:
  "sm_weeklyPnL (an_summary (tradeAnalytics (buildCostBasis lat st)))
     = spec_pnlSum (spec_countWindow (allCompleted (costBasis (buildCostBasis lat st))))
   \<and> sm_weeklyWinRate (an_summary (tradeAnalytics (buildCostBasis lat st)))
     = spec_winRate (spec_countWindow (allCompleted (costBasis (buildCostBasis lat st))))
   \<and> an_recentActivity (tradeAnalytics (buildCostBasis lat st))
     = map toActivity (spec_countWindow (allCompleted (costBasis (buildCostBasis lat st))))
   \<and> an_summary (tradeAnalytics (buildCostBasis lat' (st\<lparr>wallClock := w, clockReads := k\<rparr>)))
     = an_summary (tradeAnalytics (buildCostBasis lat st))
   \<and> an_recentActivity (tradeAnalytics (buildCostBasis lat' (st\<lparr>wallClock := w, clockReads := k\<rparr>)))
     = an_recentActivity (tradeAnalytics (buildCostBasis lat st))"
  by (simp add: buildCostBasis_fields summarize_def displayedPnL_window displayed_rate_window
        displayedTrades_window)

lemma asset_XEUR: "getAssetFromPair Map.empty ''XEUR'' = ''X''"
  by (simp add: getAssetFromPair_def stripDotS_def stripEUR_def endsWith_def dropEnd_def)

lemma week_sorted:
  "0 \<le> x \<Longrightarrow> x \<le> 2000 \<Longrightarrow>
     sort_key t_time (map snd (weekLedger x)) = weekBuy # oldSell x # replicate 50 lateSell"
proof -
  assume x: "0 \<le> x" "x \<le> 2000"
  have m: "map snd (weekLedger x) = weekBuy # oldSell x # replicate 50 lateSell"
    by (simp add: weekLedger_def comp_def map_replicate_const)
  have "sorted (map t_time (weekBuy # oldSell x # replicate 50 lateSell))"
    using x by (simp add: weekBuy_def oldSell_def lateSell_def sorted_replicate)
  then show ?thesis
    unfolding m by (rule sort_key_id_if_sorted)
qed

lemma applyTrade_lateSell:
  "cb_lots cb = [] \<Longrightarrow>
     applyTrade Map.empty lateSell [(''X'', cb)] =
       [(''X'', cb\<lparr>cb_totalReturned := cb_totalReturned cb + 2,
                   cb_completedTrades := cb_completedTrades cb @ [lateDone]\<rparr>)]"
  by (simp add: applyTrade_def Let_def lateSell_def asset_XEUR processSell_def lateDone_def)

lemma fold_lateSell:
  "cb_lots cb = [] \<Longrightarrow>
     fold (applyTrade Map.empty) (replicate n lateSell) [(''X'', cb)] =
       [(''X'', cb\<lparr>cb_totalReturned := cb_totalReturned cb + 2 * real n,
                   cb_completedTrades := cb_completedTrades cb @ replicate n lateDone\<rparr>)]"
proof (induction n arbitrary: cb)
  case 0
  then show ?case by simp
next
  case (Suc n)
  let ?cb = "cb\<lparr>cb_totalReturned := cb_totalReturned cb + 2,
                cb_completedTrades := cb_completedTrades cb @ [lateDone]\<rparr>"
  have "cb_lots ?cb = []" using Suc.prems by simp
  from Suc.IH [OF this] applyTrade_lateSell [OF Suc.prems] show ?case
    by (simp add: algebra_simps)
qed

lemma fold_first_two:
  "fold (applyTrade Map.empty) [weekBuy, oldSell x] [] =
     [(''X'', \<lparr>cb_lots = [], cb_totalInvested = 1, cb_totalReturned = 2, cb_realizedPnL = 1,
               cb_completedTrades = [oldDone x]\<rparr>)]"
  by (simp add: applyTrade_def Let_def weekBuy_def oldSell_def asset_XEUR processSell_def
        processBuy_def emptyBasis_def oldDone_def)

lemma week_replay:
  assumes "0 \<le> x" "x \<le> 2000"
  shows "replay Map.empty (weekLedger x) =
     [(''X'', \<lparr>cb_lots = [], cb_totalInvested = 1, cb_totalReturned = 102, cb_realizedPnL = 1,
               cb_completedTrades = oldDone x # replicate 50 lateDone\<rparr>)]"
proof -
  have "replay Map.empty (weekLedger x)
          = fold (applyTrade Map.empty) (replicate 50 lateSell)
              (fold (applyTrade Map.empty) [weekBuy, oldSell x] [])"
    unfolding replay_def week_sorted [OF assms] by simp
  also have "\<dots> = [(''X'', \<lparr>cb_lots = [], cb_totalInvested = 1, cb_totalReturned = 102,
                 cb_realizedPnL = 1, cb_completedTrades = oldDone x # replicate 50 lateDone\<rparr>)]"
    unfolding fold_first_two by (subst fold_lateSell) simp_all
  finally show ?thesis .
qed

lemma insort_after_replicate:
  "f y < f x \<Longrightarrow> insort_key f x (replicate n y) = replicate n y @ [x]"
  for f :: "'a \<Rightarrow> real"
  by (induction n) simp_all

lemma sort_key_replicate:
  "sort_key f (replicate n y) = replicate n y" for f :: "'a \<Rightarrow> real"
  by (rule sort_key_id_if_sorted) (simp add: sorted_replicate)

lemma week_allCompleted:
  assumes "0 \<le> x" "x \<le> 2000"
  shows "allCompleted (replay Map.empty (weekLedger x))
           = (''X'', oldDone x) # replicate 50 (''X'', lateDone)"
  by (simp add: week_replay [OF assms] allCompleted_def)

lemma week_displayed:
  assumes "0 \<le> x" "x < 2000"
  shows "displayedTrades (replay Map.empty (weekLedger x)) = replicate 50 lateAct"
proof -
  have x: "x \<le> 2000" using assms by simp
  have l: "toActivity (''X'', lateDone) = lateAct"
    by (simp add: toActivity_def lateDone_def lateAct_def)
  have "- ra_sellTime lateAct < - ra_sellTime (toActivity (''X'', oldDone x))"
    using assms by (simp add: toActivity_def oldDone_def lateAct_def)
  then have "recentActivity (replay Map.empty (weekLedger x))
          = replicate 50 lateAct @ [toActivity (''X'', oldDone x)]"
    by (simp add: recentActivity_def week_allCompleted [OF assms(1) x] l sort_key_replicate
          insort_after_replicate)
  then show ?thesis
    by (simp add: displayedTrades_def)
qed

lemma week_summary:
  assumes "0 \<le> x" "x < 2000"
  shows "summarize (replay Map.empty (weekLedger x)) =
     \<lparr>sm_totalTrades = 51, sm_realizedPnL = 1, sm_weeklyPnL = 0, sm_winningTrades = 51,
      sm_losingTrades = 0, sm_winRate = 100, sm_weeklyWinRate = 100\<rparr>"
proof -
  have x: "x \<le> 2000" using assms by simp
  note c = week_allCompleted [OF assms(1) x]
  have w: "wins (replay Map.empty (weekLedger x)) = 51"
    by (simp add: wins_def c oldDone_def lateDone_def)
  have l: "losses (replay Map.empty (weekLedger x)) = 0"
    by (simp add: losses_def c oldDone_def lateDone_def)
  have t: "totalPnL (replay Map.empty (weekLedger x)) = 1"
    by (simp add: totalPnL_def week_replay [OF assms(1) x])
  note d = week_displayed [OF assms]
  have dp: "displayedPnL (replay Map.empty (weekLedger x)) = 0"
    by (simp add: displayedPnL_def d lateAct_def sum_list_replicate)
  have dw: "displayedWins (replay Map.empty (weekLedger x)) = 50"
    by (simp add: displayedWins_def d lateAct_def)
  have dl: "displayedLosses (replay Map.empty (weekLedger x)) = 0"
    by (simp add: displayedLosses_def d lateAct_def)
  show ?thesis
    by (simp add: summarize_def w l t dp dw dl rate_def)
qed

lemma week_analytics:
  assumes "0 \<le> x" "x < 2000"
  shows "tradeAnalytics (buildCostBasis noLatency (weekState x)) =
     \<lparr>an_lastUpdate = Some 605800000,
      an_summary = \<lparr>sm_totalTrades = 51, sm_realizedPnL = 1, sm_weeklyPnL = 0,
                     sm_winningTrades = 51, sm_losingTrades = 0, sm_winRate = 100,
                     sm_weeklyWinRate = 100\<rparr>,
      an_recentActivity = replicate 50 lateAct\<rparr>"
proof -
  have p: "pairs (weekState x) = Map.empty"
    and h: "th_trades (fullTradeHistory (weekState x)) = weekLedger x"
    and k: "wallClock (weekState x) = 605800000"
    by (simp_all add: weekState_def initialState_def)
  show ?thesis
    by (simp add: buildCostBasis_def dateNow_def Let_def p h k noLatency_def
          week_summary [OF assms] week_displayed [OF assms])
qed

lemma week_locals:
  assumes "0 \<le> x" "x < 2000"
  shows "weeklyLocals noLatency (weekState x)
           = (if 1000 \<le> x then 1 else 0, if 1000 \<le> x then 51 else 50, 0)"
proof -
  have x: "x \<le> 2000" using assms by simp
  have p: "pairs (weekState x) = Map.empty"
    and h: "th_trades (fullTradeHistory (weekState x)) = weekLedger x"
    and k: "wallClock (weekState x) = 605800000" "clockReads (weekState x) = 0"
    by (simp_all add: weekState_def initialState_def)
  have o: "oneWeekAgo 605800000 = 1000"
    by (simp add: oneWeekAgo_def)
  have i: "inWeek 605800000 (replay Map.empty (weekLedger x))
         = (if 1000 \<le> x then [(''X'', oldDone x)] else []) @ replicate 50 (''X'', lateDone)"
    by (simp add: inWeek_def o week_allCompleted [OF assms(1) x] oldDone_def lateDone_def)
  show ?thesis
    by (simp add: weeklyLocals_def dateNow_def Let_def p h k noLatency_def
          weeklyPnL_def weeklyWins_def weeklyLosses_def i oldDone_def lateDone_def
          sum_list_replicate)
qed

text \<open>
  Claim C2 as stated fails. Two ledgers of 52 trades differ in the time of their oldest sell,
  inside the last seven days in one and outside in the other. The seven-day P\&L and win
  count differ (1 and 51 against 0 and 50), and the analytics that \<open>buildCostBasis\<close> stores
  are equal: the time window is not surfaced.
\<close>

theorem time_window_not_in_output:
  "tradeAnalytics (buildCostBasis noLatency (weekState 1000))
     = tradeAnalytics (buildCostBasis noLatency (weekState 999))
   \<and> weeklyLocals noLatency (weekState 1000) = (1, 51, 0)
   \<and> weeklyLocals noLatency (weekState 999) = (0, 50, 0)"
  by (simp add: week_analytics week_locals)

section \<open>Properties of binary64 rounding\<close>

lemma rne_err: "\<bar>of_int (rne y) - y\<bar> \<le> 1/2"
  unfolding rne_def Let_def by (auto; linarith)

lemma rne_of_int: "rne (of_int k) = k"
  by (simp add: rne_def)

lemma expo_lower:
  assumes "x \<noteq> 0"
  shows "2 powi expo x \<le> \<bar>x\<bar>"
proof (cases "1 \<le> \<bar>x\<bar>")
  case True
  then have p: "0 < \<lfloor>\<bar>x\<bar>\<rfloor>" by linarith
  from bitlen_bounds [OF p] have "2 ^ nat (bitlen \<lfloor>\<bar>x\<bar>\<rfloor> - 1) \<le> \<lfloor>\<bar>x\<bar>\<rfloor>" by simp
  then have "real_of_int (2 ^ nat (bitlen \<lfloor>\<bar>x\<bar>\<rfloor> - 1)) \<le> real_of_int \<lfloor>\<bar>x\<bar>\<rfloor>"
    by (simp only: of_int_le_iff)
  then have "(2::real) ^ nat (bitlen \<lfloor>\<bar>x\<bar>\<rfloor> - 1) \<le> of_int \<lfloor>\<bar>x\<bar>\<rfloor>" by simp
  also have "\<dots> \<le> \<bar>x\<bar>" by (rule of_int_floor_le)
  finally have "(2::real) ^ nat (bitlen \<lfloor>\<bar>x\<bar>\<rfloor> - 1) \<le> \<bar>x\<bar>" .
  moreover have "0 \<le> bitlen \<lfloor>\<bar>x\<bar>\<rfloor> - 1"
    using p bitlen_eq_zero_iff [of "\<lfloor>\<bar>x\<bar>\<rfloor>"] bitlen_nonneg [of "\<lfloor>\<bar>x\<bar>\<rfloor>"] by linarith
  ultimately show ?thesis using True
    by (simp add: expo_def power_int_nonneg_exp)
next
  case False
  define y where "y = 1 / \<bar>x\<bar>"
  define k where "k = bitlen (\<lceil>y\<rceil> - 1)"
  from False assms have x: "0 < \<bar>x\<bar>" "\<bar>x\<bar> < 1" by simp_all
  then have y: "1 < y" by (simp add: y_def)
  then have c: "0 < \<lceil>y\<rceil> - 1" by linarith
  from bitlen_bounds [OF c] have "\<lceil>y\<rceil> - 1 < 2 ^ nat k" by (simp add: k_def)
  then have "\<lceil>y\<rceil> \<le> 2 ^ nat k" by linarith
  then have "real_of_int \<lceil>y\<rceil> \<le> real_of_int (2 ^ nat k)" by (simp only: of_int_le_iff)
  then have "real_of_int \<lceil>y\<rceil> \<le> 2 ^ nat k" by simp
  with le_of_int_ceiling [of y] have yk: "y \<le> 2 ^ nat k" by linarith
  have k0: "0 \<le> k" by (simp add: k_def bitlen_nonneg)
  have "1 / 2 ^ nat k \<le> \<bar>x\<bar>"
    using yk x by (simp add: y_def field_simps)
  moreover have "2 powi (- k) = 1 / (2::real) ^ nat k"
    using k0 by (simp add: power_int_def field_simps)
  moreover have "expo x = - k" using False by (simp add: expo_def k_def y_def)
  ultimately show ?thesis by simp
qed

lemma expo_upper:
  assumes "x \<noteq> 0"
  shows "\<bar>x\<bar> < 2 powi (expo x + 1)"
proof (cases "1 \<le> \<bar>x\<bar>")
  case True
  then have p: "0 < \<lfloor>\<bar>x\<bar>\<rfloor>" by linarith
  from bitlen_bounds [OF p] have "\<lfloor>\<bar>x\<bar>\<rfloor> + 1 \<le> 2 ^ nat (bitlen \<lfloor>\<bar>x\<bar>\<rfloor>)" by simp
  then have "real_of_int (\<lfloor>\<bar>x\<bar>\<rfloor> + 1) \<le> real_of_int (2 ^ nat (bitlen \<lfloor>\<bar>x\<bar>\<rfloor>))"
    by (simp only: of_int_le_iff)
  then have "\<bar>x\<bar> < (2::real) ^ nat (bitlen \<lfloor>\<bar>x\<bar>\<rfloor>)" by simp linarith
  then show ?thesis using True
    by (simp add: expo_def power_int_nonneg_exp bitlen_nonneg)
next
  case False
  define y where "y = 1 / \<bar>x\<bar>"
  define k where "k = bitlen (\<lceil>y\<rceil> - 1)"
  from False assms have x: "0 < \<bar>x\<bar>" "\<bar>x\<bar> < 1" by simp_all
  then have y: "1 < y" by (simp add: y_def)
  then have c: "0 < \<lceil>y\<rceil> - 1" by linarith
  from bitlen_bounds [OF c] have "2 ^ nat (k - 1) \<le> \<lceil>y\<rceil> - 1" by (simp add: k_def)
  then have "real_of_int (2 ^ nat (k - 1)) \<le> real_of_int (\<lceil>y\<rceil> - 1)" by (simp only: of_int_le_iff)
  then have yk: "2 ^ nat (k - 1) < y" by simp linarith
  have k0: "1 \<le> k"
    using c bitlen_eq_zero_iff [of "\<lceil>y\<rceil> - 1"] bitlen_nonneg [of "\<lceil>y\<rceil> - 1"]
    unfolding k_def by linarith
  have "\<bar>x\<bar> < 1 / 2 ^ nat (k - 1)"
    using yk x by (simp add: y_def field_simps)
  moreover have "2 powi (- k + 1) = 1 / (2::real) ^ nat (k - 1)"
  proof (cases "k = 1")
    case True then show ?thesis by simp
  next
    case False
    with k0 have "\<not> 0 \<le> - k + 1" "nat (- (- k + 1)) = nat (k - 1)" by simp_all
    then show ?thesis by (simp add: power_int_def field_simps)
  qed
  moreover have "expo x = - k" using False by (simp add: expo_def k_def y_def)
  ultimately show ?thesis by simp
qed

lemma quantum_pos: "0 < quantum x"
  by (simp add: quantum_def)

lemma quantum_grid: "\<exists>j::nat. quantum x = 2 ^ j / 2 ^ 1074"
proof -
  define m where "m = max (expo x - 52) (- 1074)"
  have m: "0 \<le> m + 1074" by (simp add: m_def)
  have "(2::real) powi m = 2 powi ((m + 1074) - 1074)" by simp
  also have "\<dots> = 2 powi (m + 1074) / 2 powi 1074"
    by (rule power_int_diff) simp
  also have "\<dots> = 2 ^ nat (m + 1074) / 2 ^ 1074"
    using m by (simp add: power_int_nonneg_exp)
  finally show ?thesis unfolding quantum_def m_def by blast
qed

lemma onGrid_iff: "onGrid x = (\<exists>k::int. x = of_int k / 2 ^ 1074)"
proof
  assume "onGrid x"
  then have e: "of_int \<lfloor>x * 2 ^ 1074\<rfloor> = x * 2 ^ 1074" unfolding onGrid_def .
  have "x = x * 2 ^ 1074 / 2 ^ 1074" by simp
  then have "x = of_int \<lfloor>x * 2 ^ 1074\<rfloor> / 2 ^ 1074" by (simp only: e)
  then show "\<exists>k::int. x = of_int k / 2 ^ 1074" by blast
next
  assume "\<exists>k::int. x = of_int k / 2 ^ 1074"
  then obtain k :: int where "x = of_int k / 2 ^ 1074" by blast
  then have "x * 2 ^ 1074 = of_int k" by simp
  then show "onGrid x" unfolding onGrid_def by (simp only: floor_of_int)
qed

lemma round64_zero: "round64 0 = 0"
  by (simp add: round64_def)

lemma round64_onGrid: "onGrid (round64 x)"
proof -
  obtain j :: nat where j: "quantum x = 2 ^ j / 2 ^ 1074" using quantum_grid by blast
  have "round64 x = of_int (if x = 0 then 0 else rne (x / quantum x) * 2 ^ j) / 2 ^ 1074"
    by (simp add: round64_def j)
  then show ?thesis unfolding onGrid_iff by blast
qed

lemma onGrid_zero: "onGrid 0"
  unfolding onGrid_iff by (rule exI [of _ 0]) simp

lemma onGrid_add: "onGrid a \<Longrightarrow> onGrid b \<Longrightarrow> onGrid (a + b)"
  unfolding onGrid_iff
proof (elim exE)
  fix k l :: int
  assume "a = of_int k / 2 ^ 1074" "b = of_int l / 2 ^ 1074"
  then have "a + b = of_int (k + l) / 2 ^ 1074" by (simp add: add_divide_distrib)
  then show "\<exists>k::int. a + b = of_int k / 2 ^ 1074" by blast
qed

lemma onGrid_diff: "onGrid a \<Longrightarrow> onGrid b \<Longrightarrow> onGrid (a - b)"
  unfolding onGrid_iff
proof (elim exE)
  fix k l :: int
  assume "a = of_int k / 2 ^ 1074" "b = of_int l / 2 ^ 1074"
  then have "a - b = of_int (k - l) / 2 ^ 1074" by (simp add: diff_divide_distrib)
  then show "\<exists>k::int. a - b = of_int k / 2 ^ 1074" by blast
qed

lemma onGrid_min: "onGrid a \<Longrightarrow> onGrid b \<Longrightarrow> onGrid (min a b)"
  by (simp add: min_def)

lemma round64_err:
  assumes "onGrid x"
  shows "\<bar>round64 x - x\<bar> \<le> \<bar>x\<bar> / 2 ^ 53"
proof (cases "x = 0")
  case True
  then show ?thesis by (simp add: round64_def)
next
  case False
  define q where "q = quantum x"
  have q: "0 < q" by (simp add: q_def quantum_pos)
  have r: "round64 x = of_int (rne (x / q)) * q" using False by (simp add: round64_def q_def)
  show ?thesis
  proof (cases "- 1074 \<le> expo x - 52")
    case True
    then have "max (expo x - 52) (- 1074) = expo x - 52" by (rule max_absorb1)
    then have "q = 2 powi (expo x - 52)" by (simp only: q_def quantum_def)
    also have "\<dots> = 2 powi expo x / 2 powi 52" by (rule power_int_diff) simp
    finally have qe: "q = 2 powi expo x / 2 ^ 52" by simp
    have "round64 x - x = (of_int (rne (x / q)) - x / q) * q"
      using q by (simp add: r left_diff_distrib)
    then have "\<bar>round64 x - x\<bar> = \<bar>of_int (rne (x / q)) - x / q\<bar> * q"
      using q by (simp add: abs_mult)
    also have "\<dots> \<le> 1 / 2 * q"
      using rne_err [of "x / q"] q by (intro mult_right_mono) simp_all
    also have "\<dots> = 2 powi expo x / 2 ^ 53" by (simp add: qe)
    also have "\<dots> \<le> \<bar>x\<bar> / 2 ^ 53"
      using expo_lower [OF False] by (simp add: divide_right_mono)
    finally show ?thesis .
  next
    case sub: False
    then have "max (expo x - 52) (- 1074) = - 1074" by (intro max_absorb2) simp
    then have "q = 2 powi (- 1074)" by (simp only: q_def quantum_def)
    then have qe: "q = 1 / 2 ^ 1074" by (simp add: power_int_minus field_simps)
    from assms obtain k :: int where k: "x = of_int k / 2 ^ 1074" unfolding onGrid_iff by blast
    have "x / q = of_int k" by (simp add: k qe)
    then have "round64 x = of_int k * q" by (simp add: r rne_of_int)
    then show ?thesis by (simp add: qe k)
  qed
qed

lemma rne_bound:
  assumes "\<bar>y\<bar> \<le> of_int k"
  shows "\<bar>rne y\<bar> \<le> k"
proof -
  have lo: "- k \<le> \<lfloor>y\<rfloor>" using assms by (simp add: le_floor_iff; linarith?)
  have hi: "\<lfloor>y\<rfloor> \<le> k" using assms by (simp add: floor_le_iff; linarith?)
  have hi1: "\<lfloor>y\<rfloor> + 1 \<le> k" if "y \<noteq> of_int \<lfloor>y\<rfloor>"
  proof -
    have "of_int \<lfloor>y\<rfloor> < y" using that of_int_floor_le [of y] by linarith
    with assms have "real_of_int \<lfloor>y\<rfloor> < of_int k" by linarith
    then show ?thesis by simp
  qed
  show ?thesis
    unfolding rne_def Let_def using lo hi hi1 by (auto split: if_splits)
qed

lemma two_powi_le_imp:
  assumes "(2::real) powi a \<le> 2 powi b"
  shows "a \<le> b"
proof (rule ccontr)
  assume "\<not> a \<le> b"
  then have "(2::real) powi b < 2 powi a" by (intro power_int_strict_increasing) simp_all
  with assms show False by simp
qed

lemma round64_idem: "round64 (round64 x) = round64 x"
proof (cases "x = 0")
  case True
  then show ?thesis by (simp add: round64_def)
next
  case False
  define m where "m = max (expo x - 52) (- 1074)"
  define q where "q = (2::real) powi m"
  define n where "n = rne (x / q)"
  define y where "y = of_int n * q"
  have q: "0 < q" by (simp add: q_def)
  have rx: "round64 x = y" using False by (simp add: round64_def quantum_def y_def n_def q_def m_def)
  show ?thesis
  proof (cases "n = 0")
    case True
    then have "y = 0" by (simp add: y_def)
    then show ?thesis unfolding rx by (simp add: round64_def)
  next
    case n0: False
    then have y0: "y \<noteq> 0" using q by (simp add: y_def)
    have m53: "(2::real) powi (m + 53) = q * 2 ^ 53"
      unfolding q_def by (subst power_int_add) simp_all
    have "expo x + 1 = (expo x - 52) + 53" by simp
    then have "(2::real) powi (expo x + 1) = 2 powi ((expo x - 52) + 53)" by (rule arg_cong)
    also have "\<dots> = 2 powi (expo x - 52) * 2 ^ 53" by (subst power_int_add) simp_all
    also have "\<dots> \<le> q * 2 ^ 53"
      unfolding q_def m_def by (intro mult_right_mono power_int_increasing) simp_all
    finally have "\<bar>x\<bar> < q * 2 ^ 53" using expo_upper [OF False] by linarith
    then have "\<bar>x / q\<bar> \<le> of_int (2 ^ 53)" using q by (simp add: field_simps)
    then have nb: "\<bar>n\<bar> \<le> 2 ^ 53" unfolding n_def by (rule rne_bound)
    have ay: "\<bar>y\<bar> = of_int \<bar>n\<bar> * q" using q by (simp add: y_def abs_mult)
    define m' where "m' = max (expo y - 52) (- 1074)"
    define q' where "q' = (2::real) powi m'"
    have q': "0 < q'" by (simp add: q'_def)
    have ry: "round64 y = of_int (rne (y / q')) * q'"
      using y0 by (simp add: round64_def quantum_def q'_def m'_def)
    have "\<exists>j::int. y / q' = of_int j"
    proof (cases "m' \<le> m")
      case True
      have "m = m' + (m - m')" by simp
      then have "q = 2 powi (m' + (m - m'))" unfolding q_def by (rule arg_cong)
      also have "\<dots> = q' * 2 powi (m - m')" unfolding q'_def by (subst power_int_add) simp_all
      also have "2 powi (m - m') = (2::real) ^ nat (m - m')"
        using True by (simp add: power_int_nonneg_exp)
      finally have "y / q' = of_int (n * 2 ^ nat (m - m'))" using q' by (simp add: y_def)
      then show ?thesis by blast
    next
      case False
      have mlo: "- 1074 \<le> m" by (simp add: m_def)
      with False have e: "m' = expo y - 52" unfolding m'_def by (simp add: max_def split: if_splits)
      from nb have "real_of_int \<bar>n\<bar> \<le> real_of_int (2 ^ 53)" by (simp only: of_int_le_iff)
      then have nbr: "real_of_int \<bar>n\<bar> \<le> 2 ^ 53" by simp
      have "\<bar>y\<bar> \<le> 2 ^ 53 * q"
        unfolding ay using nbr q by (intro mult_right_mono) simp_all
      then have "\<bar>y\<bar> \<le> 2 powi (m + 53)" by (simp add: m53 mult.commute)
      with expo_lower [OF y0] have "(2::real) powi expo y \<le> 2 powi (m + 53)" by linarith
      then have "expo y \<le> m + 53" by (rule two_powi_le_imp)
      with False e have ey: "expo y = m + 53" by simp
      then have m'1: "m' = m + 1" using e by simp
      from expo_lower [OF y0] have "q * 2 ^ 53 \<le> of_int \<bar>n\<bar> * q" by (simp add: ey m53 ay)
      then have "(2::real) ^ 53 \<le> of_int \<bar>n\<bar>" using q by (simp add: mult.commute)
      then have "real_of_int (2 ^ 53) \<le> real_of_int \<bar>n\<bar>" by simp
      then have "2 ^ 53 \<le> \<bar>n\<bar>" by (simp only: of_int_le_iff)
      with nb have "\<bar>n\<bar> = 2 ^ 53" by simp
      then have nn: "n = 2 ^ 53 \<or> n = - (2 ^ 53)" by linarith
      have "q' = q * 2" unfolding q'_def m'1 q_def by (subst power_int_add) simp_all
      then have h: "y / q' = of_int n / 2" using q by (simp add: y_def)
      from nn have "n = 2 * 2 ^ 52 \<or> n = 2 * (- (2 ^ 52))" by simp
      then obtain k :: int where "n = 2 * k" by blast
      with h have "y / q' = of_int k" by simp
      then show ?thesis by blast
    qed
    then obtain j :: int where j: "y / q' = of_int j" by blast
    then have "y = of_int j * q'" using q' by (simp add: field_simps)
    moreover have "round64 y = of_int j * q'" unfolding ry j rne_of_int ..
    ultimately show ?thesis unfolding rx by simp
  qed
qed

section \<open>Rounding in the cost-basis replay\<close>

lemma u64_bounds: "0 < u64" "u64 < 1"
  by (simp_all add: u64_def)

lemma round64_rel:
  "onGrid x \<Longrightarrow> \<bar>round64 x - x\<bar> \<le> u64 * \<bar>x\<bar>"
  using round64_err [of x] by (simp add: u64_def)

lemma round64_abs_le:
  assumes "onGrid x"
  shows "\<bar>round64 x\<bar> \<le> (1 + u64) * \<bar>x\<bar>"
proof -
  have "\<bar>round64 x\<bar> \<le> \<bar>x\<bar> + \<bar>round64 x - x\<bar>" by linarith
  also have "\<dots> \<le> \<bar>x\<bar> + u64 * \<bar>x\<bar>" using round64_rel [OF assms] by simp
  finally show ?thesis by (simp add: algebra_simps)
qed

lemma round64_le_zero:
  assumes "onGrid x" and "0 \<le> x" and "round64 x \<le> 0"
  shows "x = 0"
proof -
  from round64_rel [OF assms(1)] assms(2) have "x - u64 * x \<le> round64 x" by simp
  with assms(3) have "(1 - u64) * x \<le> 0" by (simp add: algebra_simps)
  moreover have "0 < 1 - u64" using u64_bounds by simp
  ultimately have "x \<le> 0" by (simp add: mult_le_0_iff)
  with assms(2) show ?thesis by simp
qed

lemma heldAbs_nonneg: "0 \<le> heldAbs ls"
  unfolding heldAbs_def by (induction ls) simp_all

lemma held_simps:
  "held [] = 0" "held (l # ls) = lot_remaining l + held ls"
  "heldAbs [] = 0" "heldAbs (l # ls) = \<bar>lot_remaining l\<bar> + heldAbs ls"
  by (simp_all add: held_def heldAbs_def)

text \<open>One pass of the loop body that removes the head lot.\<close>

lemma shift_pass:
  assumes g: "onGrid rl" "onGrid rem" "onGrid m"
    and rem: "0 < rem"
    and sh: "round64 (rl - min rem rl) \<le> 0"
    and a: "0 \<le> a"
  shows "min rem rl = rl"
    and "a + \<bar>round64 (m + min rem rl)\<bar> \<le> (1 + u64) * (\<bar>rl\<bar> + a + \<bar>m\<bar>)"
    and "\<bar>(s + round64 (m + min rem rl)) - (rl + s + m)\<bar> \<le> u64 * (\<bar>rl\<bar> + a + \<bar>m\<bar>)"
proof -
  have "onGrid (rl - min rem rl)" using g by (simp add: onGrid_diff onGrid_min)
  moreover have "0 \<le> rl - min rem rl" by simp
  ultimately have "rl - min rem rl = 0" using sh by (rule round64_le_zero)
  then show e: "min rem rl = rl" by simp
  have gm: "onGrid (m + rl)" using g by (simp add: onGrid_add)
  have "\<bar>round64 (m + rl)\<bar> \<le> (1 + u64) * \<bar>m + rl\<bar>" by (rule round64_abs_le [OF gm])
  also have "\<dots> \<le> (1 + u64) * (\<bar>m\<bar> + \<bar>rl\<bar>)"
    using u64_bounds by (intro mult_left_mono) simp_all
  finally have "\<bar>round64 (m + rl)\<bar> \<le> (1 + u64) * (\<bar>m\<bar> + \<bar>rl\<bar>)" .
  moreover have "a \<le> (1 + u64) * a" using a u64_bounds by (simp add: algebra_simps)
  ultimately show "a + \<bar>round64 (m + min rem rl)\<bar> \<le> (1 + u64) * (\<bar>rl\<bar> + a + \<bar>m\<bar>)"
    by (simp add: e algebra_simps)
  have "\<bar>round64 (m + rl) - (m + rl)\<bar> \<le> u64 * \<bar>m + rl\<bar>" by (rule round64_rel [OF gm])
  also have "\<dots> \<le> u64 * (\<bar>rl\<bar> + a + \<bar>m\<bar>)"
    using u64_bounds a by (intro mult_left_mono) simp_all
  finally show "\<bar>(s + round64 (m + min rem rl)) - (rl + s + m)\<bar> \<le> u64 * (\<bar>rl\<bar> + a + \<bar>m\<bar>)"
    by (simp add: e algebra_simps)
qed

text \<open>One pass of the loop body that keeps the head lot.\<close>

lemma keep_pass:
  assumes g: "onGrid rl" "onGrid rem" "onGrid m"
    and rem: "0 < rem"
    and kp: "\<not> round64 (rl - min rem rl) \<le> 0"
    and a: "0 \<le> a"
  shows "min rem rl = rem"
    and "round64 (rem - min rem rl) = 0"
    and "\<bar>round64 (rl - min rem rl)\<bar> + a + \<bar>round64 (m + min rem rl)\<bar>
           \<le> (1 + u64) * (\<bar>rl\<bar> + a + \<bar>m\<bar>)"
    and "\<bar>(round64 (rl - min rem rl) + s + round64 (m + min rem rl)) - (rl + s + m)\<bar>
           \<le> u64 * (\<bar>rl\<bar> + a + \<bar>m\<bar>)"
proof -
  have ne: "min rem rl \<noteq> rl"
  proof
    assume "min rem rl = rl"
    then have "round64 (rl - min rem rl) = 0" by (simp add: round64_zero)
    with kp show False by simp
  qed
  then show e: "min rem rl = rem" by (simp add: min_def split: if_splits)
  then show "round64 (rem - min rem rl) = 0" by (simp add: round64_zero)
  from ne e have lt: "rem < rl" by (simp add: min_def split: if_splits)
  have gd: "onGrid (rl - rem)" and gm: "onGrid (m + rem)"
    using g by (simp_all add: onGrid_diff onGrid_add)
  have 4: "\<bar>rl\<bar> = rl" using lt rem by simp
  have 1: "\<bar>round64 (rl - rem)\<bar> \<le> (1 + u64) * (rl - rem)"
    using round64_abs_le [OF gd] lt by simp
  have "\<bar>round64 (m + rem)\<bar> \<le> (1 + u64) * \<bar>m + rem\<bar>" by (rule round64_abs_le [OF gm])
  also have "\<dots> \<le> (1 + u64) * (\<bar>m\<bar> + rem)"
    using u64_bounds rem by (intro mult_left_mono) simp_all
  finally have 2: "\<bar>round64 (m + rem)\<bar> \<le> (1 + u64) * (\<bar>m\<bar> + rem)" .
  have 3: "a \<le> (1 + u64) * a" using a u64_bounds by (simp add: algebra_simps)
  from 1 2 3 show "\<bar>round64 (rl - min rem rl)\<bar> + a + \<bar>round64 (m + min rem rl)\<bar>
         \<le> (1 + u64) * (\<bar>rl\<bar> + a + \<bar>m\<bar>)"
    by (simp add: e 4 algebra_simps)
  have 5: "\<bar>round64 (rl - rem) - (rl - rem)\<bar> \<le> u64 * (rl - rem)"
    using round64_rel [OF gd] lt by simp
  have "\<bar>round64 (m + rem) - (m + rem)\<bar> \<le> u64 * \<bar>m + rem\<bar>" by (rule round64_rel [OF gm])
  also have "\<dots> \<le> u64 * (\<bar>m\<bar> + rem)"
    using u64_bounds rem by (intro mult_left_mono) simp_all
  finally have 6: "\<bar>round64 (m + rem) - (m + rem)\<bar> \<le> u64 * (\<bar>m\<bar> + rem)" .
  have 7: "0 \<le> u64 * a" using a u64_bounds by simp
  have "\<bar>(round64 (rl - rem) + s + round64 (m + rem)) - (rl + s + m)\<bar>
          \<le> \<bar>round64 (rl - rem) - (rl - rem)\<bar> + \<bar>round64 (m + rem) - (m + rem)\<bar>"
    by linarith
  also have "\<dots> \<le> u64 * (rl - rem) + u64 * (\<bar>m\<bar> + rem)" using 5 6 by linarith
  also have "\<dots> \<le> u64 * (\<bar>rl\<bar> + a + \<bar>m\<bar>)" using 7 by (simp add: 4 algebra_simps)
  finally show "\<bar>(round64 (rl - min rem rl) + s + round64 (m + min rem rl)) - (rl + s + m)\<bar>
         \<le> u64 * (\<bar>rl\<bar> + a + \<bar>m\<bar>)"
    by (simp add: e)
qed

lemma pow_step:
  fixes p w0 w1 e1 e :: real
  assumes p: "1 \<le> p" and w0: "0 \<le> w0"
    and w1: "w1 \<le> (1 + u64) * w0"
    and e1: "e1 \<le> u64 * w0"
    and e: "e \<le> (p - 1) * w1"
  shows "p * w1 \<le> p * (1 + u64) * w0"
    and "e1 + e \<le> (p * (1 + u64) - 1) * w0"
proof -
  show "p * w1 \<le> p * (1 + u64) * w0"
    using mult_left_mono [OF w1, of p] p by (simp add: mult.assoc)
  have "(p - 1) * w1 \<le> (p - 1) * ((1 + u64) * w0)"
    using p w1 by (intro mult_left_mono) simp_all
  with e e1 have "e1 + e \<le> u64 * w0 + (p - 1) * ((1 + u64) * w0)" by linarith
  also have "\<dots> = (p * (1 + u64) - 1) * w0" by (simp add: algebra_simps)
  finally show "e1 + e \<le> (p * (1 + u64) - 1) * w0" .
qed

lemma fifo64_length:
  "fifo64 r c m ls = (r', c', m', ls') \<Longrightarrow> length ls' \<le> length ls"
proof (induction r c m ls rule: fifo64.induct)
  case (1 remaining costBasisUsed amountMatched)
  then show ?case by simp
next
  case (2 remaining costBasisUsed amountMatched l ls)
  show ?case
  proof (cases "remaining > 0")
    case False
    with "2.prems" show ?thesis by simp
  next
    case True
    show ?thesis
    proof (cases "round64 (lot_remaining l - min remaining (lot_remaining l)) \<le> 0")
      case shift: True
      from True shift "2.prems" "2.IH"(1) [OF True shift] show ?thesis by simp
    next
      case keep: False
      from True keep "2.prems" "2.IH"(2) [OF True keep] show ?thesis by simp
    qed
  qed
qed

lemma idle_bounds:
  assumes "0 \<le> w"
  shows "w \<le> (1 + u64) ^ 1 * w" and "\<bar>x - x\<bar> \<le> ((1 + u64) ^ 1 - 1) * w"
  using assms u64_bounds by (simp_all add: algebra_simps)

lemma fifo64_bounds:
  assumes "fifo64 r c m ls = (r', c', m', ls')"
    and "\<forall>l\<in>set ls. onGrid (lot_remaining l)" and "onGrid r" and "onGrid m"
  shows "(\<forall>l\<in>set ls'. onGrid (lot_remaining l))
     \<and> heldAbs ls' + \<bar>m'\<bar> \<le> (1 + u64) ^ (Suc (length ls) - length ls') * (heldAbs ls + \<bar>m\<bar>)
     \<and> \<bar>(held ls' + m') - (held ls + m)\<bar>
          \<le> ((1 + u64) ^ (Suc (length ls) - length ls') - 1) * (heldAbs ls + \<bar>m\<bar>)"
  using assms
proof (induction r c m ls rule: fifo64.induct)
  case (1 remaining costBasisUsed amountMatched)
  then have res: "ls' = []" "m' = amountMatched" by simp_all
  have w: "0 \<le> heldAbs [] + \<bar>amountMatched\<bar>" by (simp add: held_simps)
  from idle_bounds [OF w] show ?case
    by (simp add: res)
next
  case (2 remaining costBasisUsed amountMatched l ls)
  have w0: "0 \<le> \<bar>lot_remaining l\<bar> + heldAbs ls + \<bar>amountMatched\<bar>"
    using heldAbs_nonneg [of ls] by simp
  have w: "heldAbs (l # ls) + \<bar>amountMatched\<bar> = \<bar>lot_remaining l\<bar> + heldAbs ls + \<bar>amountMatched\<bar>"
    and h: "held (l # ls) + amountMatched = lot_remaining l + held ls + amountMatched"
    by (simp_all add: held_simps)
  have g: "onGrid (lot_remaining l)" "onGrid remaining" "onGrid amountMatched"
    using "2.prems" by simp_all
  have gls: "\<forall>l\<in>set ls. onGrid (lot_remaining l)" using "2.prems" by simp
  show ?case
  proof (cases "remaining > 0")
    case False
    with "2.prems" have res: "ls' = l # ls" "m' = amountMatched" by simp_all
    have j: "Suc (length (l # ls)) - length ls' = 1" by (simp add: res)
    from idle_bounds [OF w0] "2.prems"(2) show ?thesis
      unfolding j w h by (simp add: res held_simps)
  next
    case True
    show ?thesis
    proof (cases "round64 (lot_remaining l - min remaining (lot_remaining l)) \<le> 0")
      case shift: True
      define m1 where "m1 = round64 (amountMatched + min remaining (lot_remaining l))"
      define j where "j = Suc (length ls) - length ls'"
      define p where "p = (1 + u64) ^ j"
      from True shift "2.prems"(1)
      have f: "fifo64 (round64 (remaining - min remaining (lot_remaining l)))
                 (round64 (costBasisUsed + round64 (min remaining (lot_remaining l) * lot_price l)))
                 m1 ls = (r', c', m', ls')"
        by (simp add: m1_def)
      from fifo64_length [OF f] have len: "length ls' \<le> length ls" .
      then have j: "Suc (length (l # ls)) - length ls' = Suc j" by (simp add: j_def)
      have ih: "(\<forall>l\<in>set ls'. onGrid (lot_remaining l))
          \<and> heldAbs ls' + \<bar>m'\<bar> \<le> p * (heldAbs ls + \<bar>m1\<bar>)
          \<and> \<bar>(held ls' + m') - (held ls + m1)\<bar> \<le> (p - 1) * (heldAbs ls + \<bar>m1\<bar>)"
        unfolding p_def j_def m1_def
        using f [unfolded m1_def] gls
        by (intro "2.IH"(1) [OF True shift]) (simp_all add: round64_onGrid)
      have p1: "1 \<le> p" unfolding p_def using u64_bounds by (intro one_le_power) simp
      note sp = shift_pass [OF g True shift heldAbs_nonneg [of ls]]
      have w1: "heldAbs ls + \<bar>m1\<bar> \<le> (1 + u64) * (\<bar>lot_remaining l\<bar> + heldAbs ls + \<bar>amountMatched\<bar>)"
        unfolding m1_def by (rule sp(2))
      have e1: "\<bar>(held ls + m1) - (lot_remaining l + held ls + amountMatched)\<bar>
                  \<le> u64 * (\<bar>lot_remaining l\<bar> + heldAbs ls + \<bar>amountMatched\<bar>)"
        unfolding m1_def by (rule sp(3))
      note ps = pow_step [OF p1 w0 w1 e1 ih [THEN conjunct2, THEN conjunct2]]
      have a: "heldAbs ls' + \<bar>m'\<bar>
                 \<le> p * (1 + u64) * (\<bar>lot_remaining l\<bar> + heldAbs ls + \<bar>amountMatched\<bar>)"
        using ih ps(1) by linarith
      have "\<bar>(held ls' + m') - (lot_remaining l + held ls + amountMatched)\<bar>
              \<le> \<bar>(held ls + m1) - (lot_remaining l + held ls + amountMatched)\<bar>
                + \<bar>(held ls' + m') - (held ls + m1)\<bar>"
        by linarith
      also have "\<dots> \<le> (p * (1 + u64) - 1) * (\<bar>lot_remaining l\<bar> + heldAbs ls + \<bar>amountMatched\<bar>)"
        by (rule ps(2))
      finally have b: "\<bar>(held ls' + m') - (lot_remaining l + held ls + amountMatched)\<bar>
              \<le> (p * (1 + u64) - 1) * (\<bar>lot_remaining l\<bar> + heldAbs ls + \<bar>amountMatched\<bar>)" .
      have pj: "(1 + u64) ^ Suc j = p * (1 + u64)" by (simp add: p_def)
      from ih a b show ?thesis
        unfolding j w h pj by blast
    next
      case keep: False
      note kp = keep_pass [OF g True keep heldAbs_nonneg [of ls]]
      from True keep "2.prems"(1) kp(2)
      have res: "ls' = l\<lparr>lot_remaining := round64 (lot_remaining l - min remaining (lot_remaining l))\<rparr> # ls"
        "m' = round64 (amountMatched + min remaining (lot_remaining l))"
        by simp_all
      have j: "Suc (length (l # ls)) - length ls' = 1" by (simp add: res)
      have gl: "\<forall>l\<in>set ls'. onGrid (lot_remaining l)"
        using gls by (simp add: res round64_onGrid)
      from kp(3)
      have a: "heldAbs ls' + \<bar>m'\<bar>
                 \<le> (1 + u64) ^ 1 * (\<bar>lot_remaining l\<bar> + heldAbs ls + \<bar>amountMatched\<bar>)"
        by (simp add: res held_simps)
      from kp(4) [where s = "held ls"]
      have b: "\<bar>(held ls' + m') - (lot_remaining l + held ls + amountMatched)\<bar>
              \<le> ((1 + u64) ^ 1 - 1) * (\<bar>lot_remaining l\<bar> + heldAbs ls + \<bar>amountMatched\<bar>)"
        by (simp add: res held_simps)
      from gl a b show ?thesis
        unfolding j w h by blast
    qed
  qed
qed

lemma pow_ge_one: "1 \<le> (1 + u64) ^ k"
  using u64_bounds by (intro one_le_power) simp

lemma held_append:
  "held (ls @ [l]) = held ls + lot_remaining l"
  "heldAbs (ls @ [l]) = heldAbs ls + \<bar>lot_remaining l\<bar>"
  by (simp_all add: held_def heldAbs_def)

lemma inv_buy:
  assumes "roundingInv n B Bs cb"
  shows "roundingInv (Suc n) (B + \<bar>round64 (t_vol t)\<bar>) (Bs + round64 (t_vol t)) (processBuy64 t cb)"
proof -
  define a where "a = round64 (t_vol t)"
  define p where "p = (1 + u64) ^ (n - length (cb_lots cb))"
  from assms have i: "\<forall>l\<in>set (cb_lots cb). onGrid (lot_remaining l)"
    "length (cb_lots cb) \<le> n" "0 \<le> B" "heldAbs (cb_lots cb) \<le> p * B"
    "\<bar>held (cb_lots cb) + matched cb - Bs\<bar> \<le> (p - 1) * B"
    by (simp_all add: roundingInv_def p_def)
  have p1: "1 \<le> p" unfolding p_def by (rule pow_ge_one)
  have lots: "cb_lots (processBuy64 t cb)
                = cb_lots cb @ [\<lparr>lot_price = round64 (t_price t), lot_amount = a,
                                 lot_remaining = a, lot_time = t_time t\<rparr>]"
    and mt: "matched (processBuy64 t cb) = matched cb"
    by (simp_all add: processBuy64_def a_def matched_def)
  have e: "Suc n - length (cb_lots (processBuy64 t cb)) = n - length (cb_lots cb)"
    by (simp add: lots)
  have 1: "\<forall>l\<in>set (cb_lots (processBuy64 t cb)). onGrid (lot_remaining l)"
    using i(1) by (auto simp: lots a_def round64_onGrid)
  have 2: "length (cb_lots (processBuy64 t cb)) \<le> Suc n" using i(2) by (simp add: lots)
  have 3: "0 \<le> B + \<bar>a\<bar>" using i(3) by simp
  have "\<bar>a\<bar> \<le> p * \<bar>a\<bar>" using p1 by (simp add: mult_le_cancel_right1)
  with i(4) have 4: "heldAbs (cb_lots (processBuy64 t cb)) \<le> p * (B + \<bar>a\<bar>)"
    by (simp add: lots held_append algebra_simps)
  have "0 \<le> (p - 1) * \<bar>a\<bar>" using p1 by simp
  with i(5) have 5: "\<bar>held (cb_lots (processBuy64 t cb)) + matched (processBuy64 t cb) - (Bs + a)\<bar>
                       \<le> (p - 1) * (B + \<bar>a\<bar>)"
    by (simp add: lots held_append mt algebra_simps)
  from 1 2 3 4 5 show ?thesis
    unfolding roundingInv_def e a_def [symmetric] p_def [symmetric] by blast
qed

lemma inv_sell:
  assumes "roundingInv n B Bs cb"
  shows "roundingInv (Suc n) B Bs (processSell64 t cb)"
proof -
  define len where "len = length (cb_lots cb)"
  define p where "p = (1 + u64) ^ (n - len)"
  from assms have i: "\<forall>l\<in>set (cb_lots cb). onGrid (lot_remaining l)"
    "len \<le> n" "0 \<le> B" "heldAbs (cb_lots cb) \<le> p * B"
    "\<bar>held (cb_lots cb) + matched cb - Bs\<bar> \<le> (p - 1) * B"
    by (simp_all add: roundingInv_def p_def len_def)
  obtain r' c' m' ls' where f: "fifo64 (round64 (t_vol t)) 0 0 (cb_lots cb) = (r', c', m', ls')"
    by (cases "fifo64 (round64 (t_vol t)) 0 0 (cb_lots cb)") auto
  define q where "q = (1 + u64) ^ (Suc len - length ls')"
  from fifo64_length [OF f] have len': "length ls' \<le> len" by (simp add: len_def)
  from fifo64_bounds [OF f i(1) round64_onGrid onGrid_zero]
  have b: "\<forall>l\<in>set ls'. onGrid (lot_remaining l)"
    "heldAbs ls' + \<bar>m'\<bar> \<le> q * heldAbs (cb_lots cb)"
    "\<bar>held ls' + m' - held (cb_lots cb)\<bar> \<le> (q - 1) * heldAbs (cb_lots cb)"
    by (simp_all add: q_def len_def)
  have lots: "cb_lots (processSell64 t cb) = ls'"
    and mt: "matched (processSell64 t cb) = matched cb + m'"
    by (simp_all add: processSell64_def Let_def f matched_def)
  have e: "Suc n - length ls' = (n - len) + (Suc len - length ls')"
    using i(2) len' by simp
  have pq: "(1 + u64) ^ (Suc n - length ls') = q * p"
    unfolding e p_def q_def by (simp add: power_add)
  have p1: "1 \<le> p" unfolding p_def by (rule pow_ge_one)
  have q1: "1 \<le> q" unfolding q_def by (rule pow_ge_one)
  have "heldAbs ls' \<le> q * heldAbs (cb_lots cb)" using b(2) by linarith
  also have "\<dots> \<le> q * (p * B)" using q1 i(4) by (intro mult_left_mono) simp_all
  finally have 4: "heldAbs ls' \<le> q * p * B" by (simp add: mult.assoc)
  have "(q - 1) * heldAbs (cb_lots cb) \<le> (q - 1) * (p * B)"
    using q1 i(4) by (intro mult_left_mono) simp_all
  with b(3) have "\<bar>held ls' + m' - held (cb_lots cb)\<bar> \<le> (q - 1) * (p * B)" by linarith
  moreover have "\<bar>held ls' + (matched cb + m') - Bs\<bar>
          \<le> \<bar>held (cb_lots cb) + matched cb - Bs\<bar> + \<bar>held ls' + m' - held (cb_lots cb)\<bar>"
    by linarith
  ultimately have "\<bar>held ls' + (matched cb + m') - Bs\<bar> \<le> (p - 1) * B + (q - 1) * (p * B)"
    using i(5) by linarith
  also have "\<dots> = (q * p - 1) * B" by (simp add: algebra_simps)
  finally have 5: "\<bar>held ls' + (matched cb + m') - Bs\<bar> \<le> (q * p - 1) * B" .
  have 2: "length ls' \<le> Suc n" using len' i(2) by simp
  from b(1) 2 i(3) 4 5 show ?thesis
    unfolding roundingInv_def lots mt pq by blast
qed

lemma inv_idle:
  assumes "roundingInv n B Bs cb"
  shows "roundingInv (Suc n) B Bs cb"
proof -
  define len where "len = length (cb_lots cb)"
  define p where "p = (1 + u64) ^ (n - len)"
  from assms have i: "\<forall>l\<in>set (cb_lots cb). onGrid (lot_remaining l)"
    "len \<le> n" "0 \<le> B" "heldAbs (cb_lots cb) \<le> p * B"
    "\<bar>held (cb_lots cb) + matched cb - Bs\<bar> \<le> (p - 1) * B"
    by (simp_all add: roundingInv_def p_def len_def)
  have e: "Suc n - len = Suc (n - len)" using i(2) by simp
  have pq: "(1 + u64) ^ (Suc n - len) = p + u64 * p" unfolding e p_def by (simp add: algebra_simps)
  have p1: "1 \<le> p" unfolding p_def by (rule pow_ge_one)
  have "0 \<le> u64 * p * B" using u64_bounds p1 i(3) by simp
  then have up: "p * B \<le> (p + u64 * p) * B" "(p - 1) * B \<le> (p + u64 * p - 1) * B"
    by (simp_all add: algebra_simps)
  from i(4) up(1) have 4: "heldAbs (cb_lots cb) \<le> (p + u64 * p) * B" by linarith
  from i(5) up(2) have 5: "\<bar>held (cb_lots cb) + matched cb - Bs\<bar> \<le> (p + u64 * p - 1) * B"
    by linarith
  have 2: "len \<le> Suc n" using i(2) by simp
  from i(1) 2 i(3) 4 5 show ?thesis
    unfolding roundingInv_def len_def [symmetric] pq by blast
qed

lemma map_of_applyTrade64:
  "map_of (applyTrade64 ps t cbs) a =
     (if a = getAssetFromPair ps (t_pair t)
      then Some (stepBasis64 t (basisOf cbs a))
      else map_of cbs a)"
proof (cases "map_of cbs (getAssetFromPair ps (t_pair t))")
  case None
  then show ?thesis
    by (auto simp: applyTrade64_def Let_def map_of_setKey map_add_def stepBasis64_def basisOf_def
             split: option.split)
next
  case (Some b)
  then show ?thesis
    by (simp add: applyTrade64_def Let_def map_of_setKey stepBasis64_def basisOf_def)
qed

lemma basisOf_applyTrade64:
  "basisOf (applyTrade64 ps t cbs) a =
     (if a = getAssetFromPair ps (t_pair t) then stepBasis64 t (basisOf cbs a) else basisOf cbs a)"
  by (simp add: basisOf_def [of "applyTrade64 ps t cbs"] map_of_applyTrade64)
     (simp add: basisOf_def)

lemma inv_applyTrade64:
  assumes "roundingInv n B Bs (basisOf cbs a)"
  shows "roundingInv (n + tradeCount ps a [t]) (B + absBuyAmounts64 ps a [t])
           (Bs + buyAmounts64 ps a [t]) (basisOf (applyTrade64 ps t cbs) a)"
proof (cases "a = getAssetFromPair ps (t_pair t)")
  case False
  with assms show ?thesis
    by (simp add: basisOf_applyTrade64 tradeCount_def absBuyAmounts64_def buyAmounts64_def)
next
  case True
  consider (buy) "t_type t = ''buy''" | (sell) "t_type t = ''sell''"
    | (other) "t_type t \<noteq> ''buy''" "t_type t \<noteq> ''sell''" by blast
  then show ?thesis
  proof cases
    case buy
    with True inv_buy [OF assms, of t] show ?thesis
      by (simp add: basisOf_applyTrade64 tradeCount_def absBuyAmounts64_def buyAmounts64_def
            stepBasis64_def)
  next
    case sell
    with True inv_sell [OF assms, of t] show ?thesis
      by (simp add: basisOf_applyTrade64 tradeCount_def absBuyAmounts64_def buyAmounts64_def
            stepBasis64_def)
  next
    case other
    with True inv_idle [OF assms] show ?thesis
      by (simp add: basisOf_applyTrade64 tradeCount_def absBuyAmounts64_def buyAmounts64_def
            stepBasis64_def)
  qed
qed

lemma inv_fold:
  "roundingInv n B Bs (basisOf cbs a) \<Longrightarrow>
     roundingInv (n + tradeCount ps a ts) (B + absBuyAmounts64 ps a ts)
       (Bs + buyAmounts64 ps a ts) (basisOf (fold (applyTrade64 ps) ts cbs) a)"
proof (induction ts arbitrary: n B Bs cbs)
  case Nil
  then show ?case by (simp add: tradeCount_def absBuyAmounts64_def buyAmounts64_def)
next
  case (Cons t ts)
  have s: "tradeCount ps a (t # ts) = tradeCount ps a [t] + tradeCount ps a ts"
    "absBuyAmounts64 ps a (t # ts) = absBuyAmounts64 ps a [t] + absBuyAmounts64 ps a ts"
    "buyAmounts64 ps a (t # ts) = buyAmounts64 ps a [t] + buyAmounts64 ps a ts"
    by (simp_all add: tradeCount_def absBuyAmounts64_def buyAmounts64_def)
  from Cons.IH [OF inv_applyTrade64 [OF Cons.prems, where ps = ps and t = t]] show ?case
    by (simp add: s add.assoc)
qed

lemma inv_empty: "roundingInv 0 0 0 (basisOf [] a)"
  by (simp add: roundingInv_def basisOf_def emptyBasis_def held_simps matched_def)

lemma heldPlusMatched_basisOf:
  "heldPlusMatched cbs a = held (cb_lots (basisOf cbs a)) + matched (basisOf cbs a)"
  by (simp add: heldPlusMatched_def basisOf_def held_def matched_def emptyBasis_def
           split: option.split)

lemma sorted_quantities:
  assumes "mset ts = mset ts'"
  shows "tradeCount ps a ts = tradeCount ps a ts'"
    and "absBuyAmounts64 ps a ts = absBuyAmounts64 ps a ts'"
    and "buyAmounts64 ps a ts = buyAmounts64 ps a ts'"
proof -
  let ?P = "\<lambda>t. getAssetFromPair ps (t_pair t) = a"
  let ?Q = "\<lambda>t. t_type t = ''buy'' \<and> getAssetFromPair ps (t_pair t) = a"
  have "size (filter_mset ?P (mset ts)) = size (filter_mset ?P (mset ts'))"
    using assms by simp
  then show "tradeCount ps a ts = tradeCount ps a ts'"
    unfolding tradeCount_def by (simp only: mset_filter [symmetric] size_mset)
  have "sum_mset (image_mset (\<lambda>t. \<bar>round64 (t_vol t)\<bar>) (filter_mset ?Q (mset ts)))
          = sum_mset (image_mset (\<lambda>t. \<bar>round64 (t_vol t)\<bar>) (filter_mset ?Q (mset ts')))"
    using assms by simp
  then show "absBuyAmounts64 ps a ts = absBuyAmounts64 ps a ts'"
    unfolding absBuyAmounts64_def
    by (simp only: sum_mset_sum_list [symmetric] mset_map mset_filter)
  have "sum_mset (image_mset (\<lambda>t. round64 (t_vol t)) (filter_mset ?Q (mset ts)))
          = sum_mset (image_mset (\<lambda>t. round64 (t_vol t)) (filter_mset ?Q (mset ts')))"
    using assms by simp
  then show "buyAmounts64 ps a ts = buyAmounts64 ps a ts'"
    unfolding buyAmounts64_def
    by (simp only: sum_mset_sum_list [symmetric] mset_map mset_filter)
qed

lemma absBuyAmounts64_nonneg: "0 \<le> absBuyAmounts64 ps a ts"
  unfolding absBuyAmounts64_def by (rule sum_list_nonneg) auto

lemma replay64_bound:
  "\<bar>heldPlusMatched (replay64 ps ledger) a - buyAmounts64 ps a (map snd ledger)\<bar>
     \<le> ((1 + u64) ^ tradeCount ps a (map snd ledger) - 1) * absBuyAmounts64 ps a (map snd ledger)"
proof -
  define ts where "ts = sort_key t_time (map snd ledger)"
  define cb where "cb = basisOf (fold (applyTrade64 ps) ts []) a"
  define n where "n = tradeCount ps a ts"
  define B where "B = absBuyAmounts64 ps a ts"
  have m: "mset ts = mset (map snd ledger)" by (simp add: ts_def)
  from inv_fold [OF inv_empty, where a = a and ps = ps and ts = ts]
  have i: "roundingInv n B (buyAmounts64 ps a ts) cb"
    by (simp add: cb_def n_def B_def)
  have B0: "0 \<le> B" unfolding B_def by (rule absBuyAmounts64_nonneg)
  have "(1 + u64) ^ (n - length (cb_lots cb)) \<le> (1 + u64) ^ n"
    using u64_bounds by (intro power_increasing) simp_all
  then have "((1 + u64) ^ (n - length (cb_lots cb)) - 1) * B \<le> ((1 + u64) ^ n - 1) * B"
    using B0 by (intro mult_right_mono) simp_all
  with i have "\<bar>held (cb_lots cb) + matched cb - buyAmounts64 ps a ts\<bar> \<le> ((1 + u64) ^ n - 1) * B"
    unfolding roundingInv_def by linarith
  then show ?thesis
    unfolding n_def B_def sorted_quantities [OF m]
    by (simp add: replay64_def heldPlusMatched_basisOf cb_def ts_def)
qed

lemma processSell64_volumes:
  assumes "fifo64 (round64 (t_vol t)) 0 0 (cb_lots cb) = (r, c, m, ls)"
  shows "cb_lots (processSell64 t cb) = ls"
    and "matched (processSell64 t cb) = matched cb + m"
  by (simp_all add: processSell64_def Let_def assms matched_def)

lemma binary64_values:
  "round64 (1/10) = 3602879701896397 / 2 ^ 55"
  "round64 (3/10) = 5404319552844595 / 2 ^ 54"
  "round64 (2/5) = 3602879701896397 / 2 ^ 53"
  "round64 (3602879701896397 / 2 ^ 53 - 3602879701896397 / 2 ^ 55) = 1351079888211149 / 2 ^ 52"
  "round64 (1351079888211149 / 2 ^ 52 - 5404319552844595 / 2 ^ 54) = 1 / 2 ^ 54"
  "round64 (3602879701896397 / 2 ^ 55) = 3602879701896397 / 2 ^ 55"
  "round64 (5404319552844595 / 2 ^ 54) = 5404319552844595 / 2 ^ 54"
  by code_simp+

lemma decimal_values:
  "0 < round64 (1/10)"
  "0 < round64 (3/10)"
  "min (round64 (1/10)) (round64 (2/5)) = round64 (1/10)"
  "(round64 (round64 (2/5) - round64 (1/10)) \<le> 0) = False"
  "round64 (round64 (1/10)) = round64 (1/10)"
  "min (round64 (3/10)) (round64 (round64 (2/5) - round64 (1/10))) = round64 (3/10)"
  "round64 (round64 (3/10)) = round64 (3/10)"
  "round64 (round64 (round64 (2/5) - round64 (1/10)) - round64 (3/10)) = 1 / 2 ^ 54"
  "1 / 2 ^ 54 + (round64 (1/10) + round64 (3/10)) - round64 (2/5) = 1 / 2 ^ 55"
  unfolding binary64_values by simp_all

lemma decimal_sorted:
  "sort_key t_time (map snd decimalLedger) = [decimalBuy, decimalSell1, decimalSell2]"
  by (simp add: decimalLedger_def decimalBuy_def decimalSell1_def decimalSell2_def)

lemma decimal_basis:
  "basisOf (replay64 Map.empty decimalLedger) ''X''
     = processSell64 decimalSell2 (processSell64 decimalSell1 (processBuy64 decimalBuy emptyBasis))"
proof -
  have a: "getAssetFromPair Map.empty (t_pair decimalBuy) = ''X''"
    "getAssetFromPair Map.empty (t_pair decimalSell1) = ''X''"
    "getAssetFromPair Map.empty (t_pair decimalSell2) = ''X''"
    by (simp_all add: decimalBuy_def decimalSell1_def decimalSell2_def asset_XEUR)
  have t: "t_type decimalBuy = ''buy''" "t_type decimalSell1 = ''sell''"
    "t_type decimalSell2 = ''sell''"
    by (simp_all add: decimalBuy_def decimalSell1_def decimalSell2_def)
  show ?thesis
    unfolding replay64_def decimal_sorted
    by (simp add: basisOf_applyTrade64 a t stepBasis64_def) (simp add: basisOf_def)
qed

lemma decimal_first:
  "cb_lots (processSell64 decimalSell1 (processBuy64 decimalBuy emptyBasis))
     = [\<lparr>lot_price = round64 100, lot_amount = round64 (2/5),
         lot_remaining = round64 (round64 (2/5) - round64 (1/10)), lot_time = 1700000000\<rparr>]"
  "matched (processSell64 decimalSell1 (processBuy64 decimalBuy emptyBasis)) = round64 (1/10)"
proof -
  have f: "fifo64 (round64 (t_vol decimalSell1)) 0 0 (cb_lots (processBuy64 decimalBuy emptyBasis))
     = (0, round64 (round64 (round64 (1/10) * round64 100)), round64 (1/10),
        [\<lparr>lot_price = round64 100, lot_amount = round64 (2/5),
          lot_remaining = round64 (round64 (2/5) - round64 (1/10)), lot_time = 1700000000\<rparr>])"
    by (simp add: decimalSell1_def decimalBuy_def processBuy64_def emptyBasis_def
          decimal_values round64_zero)
  have m: "matched (processBuy64 decimalBuy emptyBasis) = 0"
    by (simp add: matched_def processBuy64_def emptyBasis_def)
  from processSell64_volumes [OF f] show
    "cb_lots (processSell64 decimalSell1 (processBuy64 decimalBuy emptyBasis))
     = [\<lparr>lot_price = round64 100, lot_amount = round64 (2/5),
         lot_remaining = round64 (round64 (2/5) - round64 (1/10)), lot_time = 1700000000\<rparr>]"
    "matched (processSell64 decimalSell1 (processBuy64 decimalBuy emptyBasis)) = round64 (1/10)"
    by (simp_all add: m)
qed

lemma decimal_second:
  "cb_lots (basisOf (replay64 Map.empty decimalLedger) ''X'')
     = [\<lparr>lot_price = round64 100, lot_amount = round64 (2/5),
         lot_remaining = 1 / 2 ^ 54, lot_time = 1700000000\<rparr>]"
  "matched (basisOf (replay64 Map.empty decimalLedger) ''X'') = round64 (1/10) + round64 (3/10)"
proof -
  let ?cb = "processSell64 decimalSell1 (processBuy64 decimalBuy emptyBasis)"
  have f: "fifo64 (round64 (t_vol decimalSell2)) 0 0 (cb_lots ?cb)
     = (0, round64 (round64 (round64 (3/10) * round64 100)), round64 (3/10),
        [\<lparr>lot_price = round64 100, lot_amount = round64 (2/5),
          lot_remaining = 1 / 2 ^ 54, lot_time = 1700000000\<rparr>])"
    unfolding decimal_first
    by (simp add: decimalSell2_def decimal_values round64_zero)
  from processSell64_volumes [OF f] show
    "cb_lots (basisOf (replay64 Map.empty decimalLedger) ''X'')
       = [\<lparr>lot_price = round64 100, lot_amount = round64 (2/5),
           lot_remaining = 1 / 2 ^ 54, lot_time = 1700000000\<rparr>]"
    "matched (basisOf (replay64 Map.empty decimalLedger) ''X'') = round64 (1/10) + round64 (3/10)"
    by (simp_all add: decimal_basis decimal_first)
qed

lemma decimal_buys:
  "buyAmounts64 Map.empty ''X'' (map snd decimalLedger) = round64 (2/5)"
  "absBuyAmounts64 Map.empty ''X'' (map snd decimalLedger) = \<bar>round64 (2/5)\<bar>"
  "tradeCount Map.empty ''X'' (map snd decimalLedger) = 3"
  by (simp_all add: buyAmounts64_def absBuyAmounts64_def tradeCount_def decimalLedger_def
        decimalBuy_def decimalSell1_def decimalSell2_def asset_XEUR)

text \<open>
  Claim C7, as amended. For every ledger and every asset, after the replay in binary64
  arithmetic the sum of \<open>remaining\<close> over the asset's lots plus the sum of \<open>amountMatched\<close>
  over its completed trades differs from the sum of the amounts of the asset's buy trades
  by at most \<open>((1 + u) ^ n - 1) * B\<close>, where \<open>u\<close> is \<open>2 ^ (- 53)\<close>, \<open>n\<close> is the number of the
  asset's trades and \<open>B\<close> is the sum of the absolute values of its buy amounts. The
  hypothesis keeps the stored volumes below \<open>2 ^ 1023\<close>, in the range where binary64
  arithmetic does not overflow.
\<close>

theorem conservation_up_to_rounding:
  assumes "(1 + u64) ^ tradeCount ps a (map snd ledger) * absBuyAmounts64 ps a (map snd ledger)
             \<le> 2 ^ 1023"
  shows "\<bar>heldPlusMatched (replay64 ps ledger) a - buyAmounts64 ps a (map snd ledger)\<bar>
           \<le> ((1 + u64) ^ tradeCount ps a (map snd ledger) - 1)
               * absBuyAmounts64 ps a (map snd ledger)"
  by (rule replay64_bound)

theorem conservation_up_to_rounding_witness:
  "(1 + u64) ^ tradeCount Map.empty ''X'' (map snd decimalLedger)
       * absBuyAmounts64 Map.empty ''X'' (map snd decimalLedger) \<le> 2 ^ 1023
   \<and> \<bar>heldPlusMatched (replay64 Map.empty decimalLedger) ''X''
        - buyAmounts64 Map.empty ''X'' (map snd decimalLedger)\<bar>
       \<le> ((1 + u64) ^ tradeCount Map.empty ''X'' (map snd decimalLedger) - 1)
           * absBuyAmounts64 Map.empty ''X'' (map snd decimalLedger)"
proof -
  have "(1 + u64) ^ 3 \<le> 2 ^ 3" using u64_bounds by (intro power_mono) simp_all
  moreover have "\<bar>round64 (2/5)\<bar> \<le> 1" unfolding binary64_values by simp
  ultimately have "(1 + u64) ^ 3 * \<bar>round64 (2/5)\<bar> \<le> 2 ^ 3 * 1"
    by (intro mult_mono) simp_all
  also have "\<dots> \<le> (2::real) ^ 1023" by simp
  finally have h: "(1 + u64) ^ tradeCount Map.empty ''X'' (map snd decimalLedger)
             * absBuyAmounts64 Map.empty ''X'' (map snd decimalLedger) \<le> 2 ^ 1023"
    unfolding decimal_buys by simp
  from conservation_up_to_rounding [OF h] h show ?thesis by blast
qed

text \<open>
  Claim C7 as stated fails. A buy of 0.4 followed by sells of 0.1 and 0.3 leaves one lot
  with \<open>remaining\<close> \<open>2 ^ (- 54)\<close>, and the lots and matched amounts add up to \<open>2 ^ (- 55)\<close>
  more than the amount of the buy; nor do they add up to the decimal 0.4.
\<close>

theorem conservation_fails_in_binary64:
  "map lot_remaining (cb_lots (basisOf (replay64 Map.empty decimalLedger) ''X'')) = [1 / 2 ^ 54]
   \<and> heldPlusMatched (replay64 Map.empty decimalLedger) ''X''
     = buyAmounts64 Map.empty ''X'' (map snd decimalLedger) + 1 / 2 ^ 55
   \<and> heldPlusMatched (replay64 Map.empty decimalLedger) ''X''
     \<noteq> buyAmounts64 Map.empty ''X'' (map snd decimalLedger)
   \<and> heldPlusMatched (replay64 Map.empty decimalLedger) ''X'' \<noteq> 4 / 10"
proof -
  have "heldPlusMatched (replay64 Map.empty decimalLedger) ''X''
          = 1 / 2 ^ 54 + (round64 (1/10) + round64 (3/10))"
    unfolding heldPlusMatched_basisOf decimal_second by (simp add: held_simps)
  moreover have "1 / 2 ^ 54 + (round64 (1/10) + round64 (3/10)) \<noteq> 4 / 10"
    unfolding binary64_values by simp
  ultimately show ?thesis
    using decimal_values(9) unfolding decimal_buys by (simp add: decimal_second)
qed

section \<open>Properties of the trade synchronisation\<close>

lemma requested_fields [simp]:
  "fetched (requested off st) = fetched st @ [off]"
  "rateLimit (requested off st) = rateLimit st"
  "wallClock (requested off st) = wallClock st"
  "clockReads (requested off st) = clockReads st"
  "pairs (requested off st) = pairs st"
  "fullTradeHistory (requested off st) = fullTradeHistory st"
  "costBasis (requested off st) = costBasis st"
  "tradeAnalytics (requested off st) = tradeAnalytics st"
  "trades (requested off st) = trades st"
  "saved (requested off st) = saved st"
  by (simp_all add: requested_def)

lemma withLedger_fields [simp]:
  "fetched (withLedger l st) = fetched st"
  "rateLimit (withLedger l st) = rateLimit st"
  "wallClock (withLedger l st) = wallClock st"
  "clockReads (withLedger l st) = clockReads st"
  "pairs (withLedger l st) = pairs st"
  "th_trades (fullTradeHistory (withLedger l st)) = l"
  "th_lastFetchTime (fullTradeHistory (withLedger l st)) = th_lastFetchTime (fullTradeHistory st)"
  "th_totalCount (fullTradeHistory (withLedger l st)) = th_totalCount (fullTradeHistory st)"
  "costBasis (withLedger l st) = costBasis st"
  "tradeAnalytics (withLedger l st) = tradeAnalytics st"
  "trades (withLedger l st) = trades st"
  "saved (withLedger l st) = saved st"
  by (simp_all add: withLedger_def)

lemma withLedger_same [simp]:
  "withLedger (th_trades (fullTradeHistory st)) st = st"
  by (simp add: withLedger_def)

lemma map_of_snoc_None:
  "map_of (l @ [(i, t)]) k = None \<longleftrightarrow> map_of l k = None \<and> k \<noteq> i"
  by (induction l) auto

lemma mergeEntries_char:
  "distinct (map fst es) \<Longrightarrow>
     mergeEntries es (l, n, c, h) =
       (l @ filter (\<lambda>e. map_of l (fst e) = None) es,
        n + length (filter (\<lambda>e. map_of l (fst e) = None) es),
        c + length (filter (\<lambda>e. map_of l (fst e) = None) es),
        h \<or> (\<exists>e\<in>set es. map_of l (fst e) \<noteq> None))"
proof (induction es arbitrary: l n c h)
  case Nil
  then show ?case by simp
next
  case (Cons e es)
  obtain i t where e: "e = (i, t)" by (cases e)
  from Cons.prems e have d: "distinct (map fst es)" and ni: "\<forall>x\<in>set es. fst x \<noteq> i"
    by auto
  show ?case
  proof (cases "map_of l i = None")
    case False
    then show ?thesis
      using Cons.IH [OF d, of l n c True] e by auto
  next
    case True
    have f: "filter (\<lambda>x. map_of (l @ [(i, t)]) (fst x) = None) es
               = filter (\<lambda>x. map_of l (fst x) = None) es"
      using ni by (intro filter_cong refl) (simp add: map_of_snoc_None)
    have x: "(\<exists>x\<in>set es. map_of (l @ [(i, t)]) (fst x) \<noteq> None)
               \<longleftrightarrow> (\<exists>x\<in>set es. map_of l (fst x) \<noteq> None)"
      using ni by (auto simp: map_of_snoc_None simp del: map_of_append)
    have "mergeEntries es (l @ [(i, t)], Suc n, Suc c, h) =
            ((l @ [(i, t)]) @ filter (\<lambda>e. map_of l (fst e) = None) es,
             Suc n + length (filter (\<lambda>e. map_of l (fst e) = None) es),
             Suc c + length (filter (\<lambda>e. map_of l (fst e) = None) es),
             h \<or> (\<exists>e\<in>set es. map_of l (fst e) \<noteq> None))"
      using Cons.IH [OF d, of "l @ [(i, t)]" "Suc n" "Suc c" h] unfolding f x .
    with True e show ?thesis
      by (simp del: not_None_eq)
  qed
qed

lemma mergeEntries_grow:
  "mergeEntries es (l, n, c, h) = (l', n', c', h') \<Longrightarrow>
     \<exists>new. l' = l @ new \<and> n' = n + length new \<and> c' = c + length new"
proof (induction es arbitrary: l n c h)
  case Nil
  then show ?case by simp
next
  case (Cons e es)
  obtain i t where e: "e = (i, t)" by (cases e)
  show ?case
  proof (cases "map_of l i = None")
    case False
    with Cons.prems e have "mergeEntries es (l, n, c, True) = (l', n', c', h')"
      by simp
    from Cons.IH [OF this] show ?thesis .
  next
    case True
    with Cons.prems e have "mergeEntries es (l @ [(i, t)], Suc n, Suc c, h) = (l', n', c', h')"
      by simp
    from Cons.IH [OF this] obtain new where
      "l' = (l @ [(i, t)]) @ new \<and> n' = Suc n + length new \<and> c' = Suc c + length new"
      by blast
    then have "l' = l @ ((i, t) # new) \<and> n' = n + length ((i, t) # new)
                 \<and> c' = c + length ((i, t) # new)"
      by simp
    then show ?thesis by blast
  qed
qed

lemma fetchLoop_hit:
  "fetchLoop (Suc fuel) lat gw off cnt True st = Some (cnt, st)"
  by simp

lemma fetchLoop_nowait:
  "waitForRateLimit fuel lat 2 st = None \<Longrightarrow>
     fetchLoop (Suc fuel) lat gw off cnt False st = None"
  by simp

lemma fetchLoop_error:
  "waitForRateLimit fuel lat 2 st = Some st1 \<Longrightarrow> gw off = GatewayError \<Longrightarrow>
     fetchLoop (Suc fuel) lat gw off cnt False st = Some (cnt, requested off st1)"
  by simp

lemma fetchLoop_page:
  "waitForRateLimit fuel lat 2 st = Some st1 \<Longrightarrow> gw off = Page es \<Longrightarrow>
   mergeEntries es (th_trades (fullTradeHistory st1), 0, cnt, False) = (l, n, c, h) \<Longrightarrow>
     fetchLoop (Suc fuel) lat gw off cnt False st =
       (if es = [] then Some (cnt, requested off st1)
        else if n = 0 then Some (c, withLedger l (requested off st1))
        else if length es < 50 then Some (c, withLedger l (requested off st1))
        else fetchLoop fuel lat gw (off + 50) c h (withLedger l (requested off st1)))"
  by (simp add: Let_def)

declare fetchLoop.simps [simp del]

lemma fetchLoop_effect:
  "fetchLoop fuel lat gw off cnt hit st = Some (cnt', st') \<Longrightarrow>
     \<exists>new. th_trades (fullTradeHistory st') = th_trades (fullTradeHistory st) @ new
       \<and> cnt' = cnt + length new
       \<and> th_lastFetchTime (fullTradeHistory st') = th_lastFetchTime (fullTradeHistory st)
       \<and> th_totalCount (fullTradeHistory st') = th_totalCount (fullTradeHistory st)
       \<and> pairs st' = pairs st \<and> saved st' = saved st \<and> costBasis st' = costBasis st
       \<and> tradeAnalytics st' = tradeAnalytics st \<and> trades st' = trades st"
proof (induction fuel arbitrary: off cnt hit st)
  case 0
  then show ?case by (simp add: fetchLoop.simps)
next
  case (Suc fuel)
  show ?case
  proof (cases hit)
    case True
    with Suc.prems have "cnt' = cnt" "st' = st"
      by (simp_all only: fetchLoop_hit option.inject prod.inject)
    then show ?thesis by simp
  next
    case False
    show ?thesis
    proof (cases "waitForRateLimit fuel lat 2 st")
      case None
      with Suc.prems False have "None = Some (cnt', st')"
        by (simp only: fetchLoop_nowait)
      then show ?thesis by simp
    next
      case (Some st1)
      note fr = waitForRateLimit_frame [OF Some]
      show ?thesis
      proof (cases "gw off")
        case GatewayError
        from Suc.prems False have "cnt' = cnt" "st' = requested off st1"
          by (simp_all only: fetchLoop_error [where gw = gw and off = off, OF Some GatewayError] option.inject prod.inject)
        with fr show ?thesis by simp
      next
        case (Page es)
        obtain l n c h where
          m: "mergeEntries es (th_trades (fullTradeHistory st1), 0, cnt, False) = (l, n, c, h)"
          by (cases "mergeEntries es (th_trades (fullTradeHistory st1), 0, cnt, False)") auto
        from mergeEntries_grow [OF m] obtain new0 where
          g: "l = th_trades (fullTradeHistory st1) @ new0" "n = length new0"
             "c = cnt + length new0"
          by auto
        note step = fetchLoop_page [where gw = gw and off = off, OF Some Page m]
        let ?s = "withLedger l (requested off st1)"
        have fs: "th_trades (fullTradeHistory ?s) = th_trades (fullTradeHistory st) @ new0
            \<and> th_lastFetchTime (fullTradeHistory ?s) = th_lastFetchTime (fullTradeHistory st)
            \<and> th_totalCount (fullTradeHistory ?s) = th_totalCount (fullTradeHistory st)
            \<and> pairs ?s = pairs st \<and> saved ?s = saved st \<and> costBasis ?s = costBasis st
            \<and> tradeAnalytics ?s = tradeAnalytics st \<and> trades ?s = trades st"
          using fr g by simp
        consider (empty) "es = []"
          | (stop) "es \<noteq> []" "n = 0 \<or> length es < 50"
          | (more) "es \<noteq> []" "n \<noteq> 0" "\<not> length es < 50"
          by blast
        then show ?thesis
        proof cases
          case empty
          with Suc.prems False step have "cnt' = cnt" "st' = requested off st1"
            by simp_all
          with fr show ?thesis by simp
        next
          case stop
          with step have "fetchLoop (Suc fuel) lat gw off cnt False st = Some (c, ?s)"
            by auto
          with Suc.prems False have "cnt' = c" "st' = ?s"
            by simp_all
          with fs g show ?thesis by simp
        next
          case more
          with Suc.prems False step have "fetchLoop fuel lat gw (off + 50) c h ?s = Some (cnt', st')"
            by simp
          from Suc.IH [OF this] obtain new1 where
            "th_trades (fullTradeHistory st') = th_trades (fullTradeHistory ?s) @ new1
             \<and> cnt' = c + length new1
             \<and> th_lastFetchTime (fullTradeHistory st') = th_lastFetchTime (fullTradeHistory ?s)
             \<and> th_totalCount (fullTradeHistory st') = th_totalCount (fullTradeHistory ?s)
             \<and> pairs st' = pairs ?s \<and> saved st' = saved ?s \<and> costBasis st' = costBasis ?s
             \<and> tradeAnalytics st' = tradeAnalytics ?s \<and> trades st' = trades ?s"
            by blast
          with fs g have
            "th_trades (fullTradeHistory st') = th_trades (fullTradeHistory st) @ (new0 @ new1)
             \<and> cnt' = cnt + length (new0 @ new1)
             \<and> th_lastFetchTime (fullTradeHistory st') = th_lastFetchTime (fullTradeHistory st)
             \<and> th_totalCount (fullTradeHistory st') = th_totalCount (fullTradeHistory st)
             \<and> pairs st' = pairs st \<and> saved st' = saved st \<and> costBasis st' = costBasis st
             \<and> tradeAnalytics st' = tradeAnalytics st \<and> trades st' = trades st"
            by simp
          then show ?thesis by blast
        qed
      qed
    qed
  qed
qed

lemma recordFetch_fields:
  "th_trades (fullTradeHistory (recordFetch lat st)) = th_trades (fullTradeHistory st)"
  "th_totalCount (fullTradeHistory (recordFetch lat st)) = length (th_trades (fullTradeHistory st))"
  "th_lastFetchTime (fullTradeHistory (recordFetch lat st))
     = Some (wallClock st + int (lat (clockReads st)))"
  "saved (recordFetch lat st) = saved st @ [SaveTradeHistory (fullTradeHistory (recordFetch lat st))]"
  "pairs (recordFetch lat st) = pairs st"
  "fetched (recordFetch lat st) = fetched st"
  "wallClock (recordFetch lat st) = wallClock st + int (lat (clockReads st))"
  by (simp_all add: recordFetch_def dateNow_def Let_def)

lemma updateRecentTrades_fields:
  "fullTradeHistory (updateRecentTrades n st) = fullTradeHistory st"
  "costBasis (updateRecentTrades n st) = costBasis st"
  "tradeAnalytics (updateRecentTrades n st) = tradeAnalytics st"
  "saved (updateRecentTrades n st) = saved st"
  "fetched (updateRecentTrades n st) = fetched st"
  "pairs (updateRecentTrades n st) = pairs st"
  "wallClock (updateRecentTrades n st) = wallClock st"
  by (simp_all add: updateRecentTrades_def)

lemma buildCostBasis_clock:
  "wallClock st \<le> wallClock (buildCostBasis lat st)"
  by (simp add: buildCostBasis_def dateNow_def Let_def)

lemma fetchNewTrades_unfold:
  "fetchLoop fuel lat gw 0 0 False st = Some (cnt, st1) \<Longrightarrow>
     fetchNewTrades fuel lat gw st =
       Some (fullTradeHistory (afterLoop lat cnt st1), afterLoop lat cnt st1)"
  by (simp add: fetchNewTrades_def afterLoop_def Let_def)

lemma afterLoop_none:
  "fullTradeHistory (afterLoop lat 0 st1) = fullTradeHistory st1"
  "fetched (afterLoop lat 0 st1) = fetched st1"
  "costBasis (afterLoop lat 0 st1) = replay (pairs st1) (th_trades (fullTradeHistory st1))"
  "saved (afterLoop lat 0 st1)
     = saved st1 @ [SaveCostBasis (costBasis (afterLoop lat 0 st1)),
                    SaveAnalytics (tradeAnalytics (afterLoop lat 0 st1))]"
  by (simp_all add: afterLoop_def updateRecentTrades_fields buildCostBasis_fields)

lemma afterLoop_some:
  assumes "0 < cnt"
  shows "th_trades (fullTradeHistory (afterLoop lat cnt st1)) = th_trades (fullTradeHistory st1)"
    and "th_totalCount (fullTradeHistory (afterLoop lat cnt st1))
           = length (th_trades (fullTradeHistory st1))"
    and "th_lastFetchTime (fullTradeHistory (afterLoop lat cnt st1))
           = Some (wallClock st1 + int (lat (clockReads st1)))"
    and "fetched (afterLoop lat cnt st1) = fetched st1"
    and "costBasis (afterLoop lat cnt st1) = replay (pairs st1) (th_trades (fullTradeHistory st1))"
    and "saved (afterLoop lat cnt st1)
           = saved st1 @ [SaveTradeHistory (fullTradeHistory (afterLoop lat cnt st1)),
                          SaveCostBasis (costBasis (afterLoop lat cnt st1)),
                          SaveAnalytics (tradeAnalytics (afterLoop lat cnt st1))]"
    and "wallClock st1 + int (lat (clockReads st1)) \<le> wallClock (afterLoop lat cnt st1)"
  using assms buildCostBasis_clock [of "recordFetch lat st1" lat]
  by (simp_all add: afterLoop_def updateRecentTrades_fields buildCostBasis_fields
        recordFetch_fields)

text \<open>
  Claim C10. Every call of \<open>fetchNewTrades\<close> that returns has replaced the cost basis
  by the replay of the whole ledger and has saved the cost basis and the analytics, as the
  last two saves. If no record was inserted, the ledger object is what it was and nothing
  else was saved; otherwise \<open>totalCount\<close> is the number of entries, \<open>lastFetchTime\<close> is a
  clock reading of this call, and the ledger was saved once, before the other two.
\<close>

theorem sync_rebuilds_always:
  assumes "fetchNewTrades fuel lat gw st = Some (h, st')"
  shows "h = fullTradeHistory st'
     \<and> costBasis st' = replay (pairs st) (th_trades (fullTradeHistory st'))
     \<and> (\<exists>sv. saved st' = saved st @ sv @ [SaveCostBasis (costBasis st'),
                                           SaveAnalytics (tradeAnalytics st')]
          \<and> (if th_trades (fullTradeHistory st') = th_trades (fullTradeHistory st)
              then sv = [] \<and> fullTradeHistory st' = fullTradeHistory st
              else sv = [SaveTradeHistory (fullTradeHistory st')]
                \<and> th_totalCount (fullTradeHistory st') = length (th_trades (fullTradeHistory st'))
                \<and> (\<exists>now. th_lastFetchTime (fullTradeHistory st') = Some now
                          \<and> now \<le> wallClock st')))"
proof -
  from assms obtain cnt st1 where
    l: "fetchLoop fuel lat gw 0 0 False st = Some (cnt, st1)"
    by (cases "fetchLoop fuel lat gw 0 0 False st") (auto simp: fetchNewTrades_def)
  from fetchNewTrades_unfold [OF l] assms have
    h: "h = fullTradeHistory st'" and s: "st' = afterLoop lat cnt st1"
    by simp_all
  from fetchLoop_effect [OF l] obtain new where
    e: "th_trades (fullTradeHistory st1) = th_trades (fullTradeHistory st) @ new"
       "cnt = length new"
       "th_lastFetchTime (fullTradeHistory st1) = th_lastFetchTime (fullTradeHistory st)"
       "th_totalCount (fullTradeHistory st1) = th_totalCount (fullTradeHistory st)"
       "pairs st1 = pairs st" "saved st1 = saved st"
    by auto
  show ?thesis
  proof (cases "cnt = 0")
    case True
    with e have "fullTradeHistory st1 = fullTradeHistory st"
      by (simp add: trade_history.equality)
    with True h e show ?thesis
      unfolding s by (simp add: afterLoop_none)
  next
    case False
    then have c: "0 < cnt" by simp
    from False e have n: "th_trades (fullTradeHistory st1) \<noteq> th_trades (fullTradeHistory st)"
      by simp
    note a = afterLoop_some [OF c, where lat = lat and ?st1.0 = st1]
    have "saved st' = saved st @ [SaveTradeHistory (fullTradeHistory st')]
            @ [SaveCostBasis (costBasis st'), SaveAnalytics (tradeAnalytics st')]"
      unfolding s using a(6) e(6) by simp
    moreover have "th_lastFetchTime (fullTradeHistory st') = Some (wallClock st1 + int (lat (clockReads st1)))
        \<and> wallClock st1 + int (lat (clockReads st1)) \<le> wallClock st'"
      unfolding s using a(3,7) by simp
    ultimately show ?thesis
      using h n a(1,2,5) e(5) unfolding s by auto
  qed
qed

lemma mergeEntries_known:
  "\<forall>e\<in>set es. map_of l (fst e) \<noteq> None \<Longrightarrow>
     mergeEntries es (l, n, c, h) = (l, n, c, h \<or> es \<noteq> [])"
proof (induction es arbitrary: h)
  case Nil
  then show ?case by simp
next
  case (Cons e es)
  obtain i t where e: "e = (i, t)" by (cases e)
  with Cons.prems have "map_of l i \<noteq> None" and "\<forall>e\<in>set es. map_of l (fst e) \<noteq> None"
    by simp_all
  with Cons.IH [of True] e show ?case
    by (simp del: not_None_eq)
qed

lemma first_page_known:
  assumes r: "0 < decayRate (rateLimit st)" "2 \<le> maxCounter (rateLimit st)"
    and k: "\<forall>es. gw 0 = Page es \<longrightarrow>
              (\<forall>e\<in>set es. map_of (th_trades (fullTradeHistory st)) (fst e) \<noteq> None)"
  shows "\<exists>st1. waitForRateLimit (Suc (Suc fuel)) lat 2 st = Some st1
           \<and> fetchLoop (Suc (Suc (Suc fuel))) lat gw 0 0 False st = Some (0, requested 0 st1)"
proof -
  from waitForRateLimit_returns [OF r] obtain st1 where
    w: "waitForRateLimit (Suc (Suc fuel)) lat 2 st = Some st1"
    by blast
  note fr = waitForRateLimit_frame [OF w]
  have "fetchLoop (Suc (Suc (Suc fuel))) lat gw 0 0 False st = Some (0, requested 0 st1)"
  proof (cases "gw 0")
    case GatewayError
    then show ?thesis
      by (rule fetchLoop_error [where gw = gw and off = 0, OF w])
  next
    case (Page es)
    with k have "\<forall>e\<in>set es. map_of (th_trades (fullTradeHistory st1)) (fst e) \<noteq> None"
      using fr by simp
    from mergeEntries_known [OF this]
    have m: "mergeEntries es (th_trades (fullTradeHistory st1), 0, 0, False)
               = (th_trades (fullTradeHistory st1), 0, 0, es \<noteq> [])"
      by simp
    have "withLedger (th_trades (fullTradeHistory st1)) (requested 0 st1) = requested 0 st1"
      using withLedger_same [of "requested 0 st1"] by simp
    with fetchLoop_page [where gw = gw and off = 0, OF w Page m] show ?thesis
      by simp
  qed
  with w show ?thesis by blast
qed

text \<open>
  Claim C8. When every id that the remote history serves is in the ledger, an incremental
  sync makes exactly one page request (offset 0), returns the ledger it started with and
  leaves the ledger object as it was: entries, \<open>totalCount\<close> and \<open>lastFetchTime\<close>. Only the
  cost basis and the analytics are saved. The rate limiter is configured with a positive
  decay rate and room for the cost of one page.
\<close>

theorem converged_sync_one_fetch:
  assumes "0 < decayRate (rateLimit st)" and "2 \<le> maxCounter (rateLimit st)"
    and "\<forall>off es. gw off = Page es \<longrightarrow>
           (\<forall>e\<in>set es. map_of (th_trades (fullTradeHistory st)) (fst e) \<noteq> None)"
  shows "\<exists>st'. fetchNewTrades (Suc (Suc (Suc fuel))) lat gw st = Some (fullTradeHistory st, st')
     \<and> fullTradeHistory st' = fullTradeHistory st
     \<and> fetched st' = fetched st @ [0]
     \<and> saved st' = saved st @ [SaveCostBasis (costBasis st'), SaveAnalytics (tradeAnalytics st')]"
proof -
  from assms(3) have "\<forall>es. gw 0 = Page es \<longrightarrow>
              (\<forall>e\<in>set es. map_of (th_trades (fullTradeHistory st)) (fst e) \<noteq> None)"
    by blast
  from first_page_known [where gw = gw, OF assms(1,2) this] obtain st1 where
    w: "waitForRateLimit (Suc (Suc fuel)) lat 2 st = Some st1"
    and l: "fetchLoop (Suc (Suc (Suc fuel))) lat gw 0 0 False st = Some (0, requested 0 st1)"
    by blast
  note fr = waitForRateLimit_frame [OF w]
  let ?s = "afterLoop lat 0 (requested 0 st1)"
  have "fetchNewTrades (Suc (Suc (Suc fuel))) lat gw st = Some (fullTradeHistory ?s, ?s)"
    by (rule fetchNewTrades_unfold [OF l])
  moreover have "fullTradeHistory ?s = fullTradeHistory st"
    and "fetched ?s = fetched st @ [0]"
    and "saved ?s = saved st @ [SaveCostBasis (costBasis ?s), SaveAnalytics (tradeAnalytics ?s)]"
    using fr by (simp_all add: afterLoop_none)
  ultimately show ?thesis by simp
qed

lemma fetchLoop_one_page:
  assumes w: "waitForRateLimit fuel lat 2 st = Some st1" and pg: "gw off = Page es"
    and d: "distinct (map fst es)"
    and l: "l = th_trades (fullTradeHistory st)"
    and n: "new = filter (\<lambda>e. map_of l (fst e) = None) es"
  shows "fetchLoop (Suc fuel) lat gw off cnt False st =
     (if (\<forall>e\<in>set es. map_of l (fst e) \<noteq> None) \<or> length es < 50
      then Some (cnt + length new, withLedger (l @ new) (requested off st1))
      else fetchLoop fuel lat gw (off + 50) (cnt + length new)
             (\<exists>e\<in>set es. map_of l (fst e) \<noteq> None)
             (withLedger (l @ new) (requested off st1)))"
proof -
  note fr = waitForRateLimit_frame [OF w]
  have l1: "th_trades (fullTradeHistory st1) = l" using fr l by simp
  have m: "mergeEntries es (th_trades (fullTradeHistory st1), 0, cnt, False)
             = (l @ new, length new, cnt + length new, \<exists>e\<in>set es. map_of l (fst e) \<noteq> None)"
    unfolding l1 n using mergeEntries_char [OF d, of l 0 cnt False] by simp
  note step = fetchLoop_page [where gw = gw and off = off, OF w pg m]
  have z: "length new = 0 \<longleftrightarrow> (\<forall>e\<in>set es. map_of l (fst e) \<noteq> None)"
    unfolding n by (simp add: filter_empty_conv del: not_None_eq)
  show ?thesis
  proof (cases "es = []")
    case True
    then have "new = []" using n by simp
    moreover have "withLedger l (requested off st1) = requested off st1"
      using withLedger_same [of "requested off st1"] l1 by simp
    ultimately show ?thesis
      using step True by simp
  next
    case False
    with step z show ?thesis
      by (simp del: not_None_eq)
  qed
qed

lemma fetchLoop_requests:
  "fetchLoop fuel lat gw off cnt hit st = Some (cnt', st') \<Longrightarrow>
     (if hit then fetched st' = fetched st else (\<exists>rest. fetched st' = fetched st @ off # rest))"
proof (induction fuel arbitrary: off cnt hit st)
  case 0
  then show ?case by (simp add: fetchLoop.simps)
next
  case (Suc fuel)
  show ?case
  proof (cases hit)
    case True
    with Suc.prems have "st' = st"
      by (simp only: fetchLoop_hit option.inject prod.inject)
    with True show ?thesis by simp
  next
    case False
    show ?thesis
    proof (cases "waitForRateLimit fuel lat 2 st")
      case None
      with Suc.prems False have "None = Some (cnt', st')"
        by (simp only: fetchLoop_nowait)
      then show ?thesis by simp
    next
      case (Some st1)
      note fr = waitForRateLimit_frame [OF Some]
      show ?thesis
      proof (cases "gw off")
        case GatewayError
        from Suc.prems False have "st' = requested off st1"
          by (simp only: fetchLoop_error [where gw = gw and off = off, OF Some GatewayError]
                option.inject prod.inject)
        with fr False show ?thesis by simp
      next
        case (Page es)
        obtain l n c h where
          m: "mergeEntries es (th_trades (fullTradeHistory st1), 0, cnt, False) = (l, n, c, h)"
          by (cases "mergeEntries es (th_trades (fullTradeHistory st1), 0, cnt, False)") auto
        note step = fetchLoop_page [where gw = gw and off = off, OF Some Page m]
        let ?s = "withLedger l (requested off st1)"
        consider (none) "es = []"
          | (halt) "es \<noteq> []" "n = 0 \<or> length es < 50"
          | (more) "es \<noteq> []" "n \<noteq> 0" "\<not> length es < 50"
          by blast
        then show ?thesis
        proof cases
          case none
          with Suc.prems False step have "st' = requested off st1"
            by simp
          with fr False show ?thesis by simp
        next
          case halt
          with step have "fetchLoop (Suc fuel) lat gw off cnt False st = Some (c, ?s)"
            by auto
          with Suc.prems False have "st' = ?s"
            by simp
          with fr False show ?thesis by simp
        next
          case more
          with Suc.prems False step have
            "fetchLoop fuel lat gw (off + 50) c h ?s = Some (cnt', st')"
            by simp
          from Suc.IH [OF this] have "\<exists>rest. fetched st' = fetched ?s @ rest"
            by (cases h) auto
          then obtain rest where "fetched st' = fetched ?s @ rest" ..
          then have "fetched st' = fetched st @ off # rest"
            using fr by simp
          with False show ?thesis by auto
        qed
      qed
    qed
  qed
qed

lemma afterLoop_fetched:
  "fetched (afterLoop lat cnt st1) = fetched st1"
  by (simp add: afterLoop_def updateRecentTrades_fields buildCostBasis_fields recordFetch_fields)

lemma fetchLoop_stops:
  assumes r: "0 < decayRate (rateLimit st)" "2 \<le> maxCounter (rateLimit st)"
    and d: "\<forall>es. gw off = Page es \<longrightarrow> distinct (map fst es)"
    and s: "stopsAfter (th_trades (fullTradeHistory st)) (gw off)"
  shows "\<exists>c st'. fetchLoop (Suc (Suc (Suc fuel))) lat gw off cnt False st = Some (c, st')
           \<and> fetched st' = fetched st @ [off]"
proof -
  from waitForRateLimit_returns [OF r] obtain st1 where
    w: "waitForRateLimit (Suc (Suc fuel)) lat 2 st = Some st1"
    by blast
  note fr = waitForRateLimit_frame [OF w]
  show ?thesis
  proof (cases "gw off")
    case GatewayError
    from fetchLoop_error [where gw = gw and off = off, OF w GatewayError] fr show ?thesis
      by simp
  next
    case (Page es)
    define l where "l = th_trades (fullTradeHistory st)"
    define new where "new = filter (\<lambda>e. map_of l (fst e) = None) es"
    from d Page have dd: "distinct (map fst es)" by simp
    note step = fetchLoop_one_page [where gw = gw and off = off, OF w Page dd l_def new_def]
    let ?s = "withLedger (l @ new) (requested off st1)"
    have f: "fetched ?s = fetched st @ [off]" using fr by simp
    show ?thesis
    proof (cases "(\<forall>e\<in>set es. map_of l (fst e) \<noteq> None) \<or> length es < 50")
      case True
      with step have "fetchLoop (Suc (Suc (Suc fuel))) lat gw off cnt False st
                        = Some (cnt + length new, ?s)"
        by (simp only: if_True)
      with f show ?thesis by blast
    next
      case False
      with s Page have k: "\<exists>e\<in>set es. map_of l (fst e) \<noteq> None"
        unfolding stopsAfter_def l_def by (simp only: response.case) blast
      from False step have "fetchLoop (Suc (Suc (Suc fuel))) lat gw off cnt False st
          = fetchLoop (Suc (Suc fuel)) lat gw (off + 50) (cnt + length new)
              (\<exists>e\<in>set es. map_of l (fst e) \<noteq> None) ?s"
        by (simp only: if_False)
      also have "\<dots> = Some (cnt + length new, ?s)"
        using k by (simp only: fetchLoop_hit)
      finally show ?thesis using f by blast
    qed
  qed
qed

lemma fetchLoop_continues:
  assumes r: "0 < decayRate (rateLimit st)" "2 \<le> maxCounter (rateLimit st)"
    and d: "\<forall>es. gw off = Page es \<longrightarrow> distinct (map fst es)"
    and s: "\<not> stopsAfter (th_trades (fullTradeHistory st)) (gw off)"
  shows "\<exists>es st3. gw off = Page es
           \<and> th_trades (fullTradeHistory st3) = th_trades (fullTradeHistory st) @ es
           \<and> fetched st3 = fetched st @ [off]
           \<and> decayRate (rateLimit st3) = decayRate (rateLimit st)
           \<and> maxCounter (rateLimit st3) = maxCounter (rateLimit st)
           \<and> fetchLoop (Suc (Suc (Suc fuel))) lat gw off cnt False st
               = fetchLoop (Suc (Suc fuel)) lat gw (off + 50) (cnt + length es) False st3"
proof -
  from waitForRateLimit_returns [OF r] obtain st1 where
    w: "waitForRateLimit (Suc (Suc fuel)) lat 2 st = Some st1"
    by blast
  note fr = waitForRateLimit_frame [OF w]
  from s obtain es where Page: "gw off = Page es"
    by (cases "gw off") (simp_all add: stopsAfter_def)
  define l where "l = th_trades (fullTradeHistory st)"
  define new where "new = filter (\<lambda>e. map_of l (fst e) = None) es"
  from s Page have nk: "\<not> (\<exists>e\<in>set es. map_of l (fst e) \<noteq> None)"
    and c: "\<not> ((\<forall>e\<in>set es. map_of l (fst e) \<noteq> None) \<or> length es < 50)"
    unfolding stopsAfter_def l_def by (simp_all only: response.case) blast+
  from nk have n: "new = es"
    unfolding new_def by (simp add: filter_id_conv del: not_None_eq)
  from d Page have dd: "distinct (map fst es)" by simp
  note step = fetchLoop_one_page [where gw = gw and off = off, OF w Page dd l_def new_def]
  let ?s = "withLedger (l @ es) (requested off st1)"
  from c step have "fetchLoop (Suc (Suc (Suc fuel))) lat gw off cnt False st
          = fetchLoop (Suc (Suc fuel)) lat gw (off + 50) (cnt + length new)
              (\<exists>e\<in>set es. map_of l (fst e) \<noteq> None) (withLedger (l @ new) (requested off st1))"
    by (simp only: if_False)
  with nk n have "fetchLoop (Suc (Suc (Suc fuel))) lat gw off cnt False st
          = fetchLoop (Suc (Suc fuel)) lat gw (off + 50) (cnt + length es) False ?s"
    by (simp only:)
  moreover have "th_trades (fullTradeHistory ?s) = th_trades (fullTradeHistory st) @ es"
    and "fetched ?s = fetched st @ [off]"
    and "decayRate (rateLimit ?s) = decayRate (rateLimit st)"
    and "maxCounter (rateLimit ?s) = maxCounter (rateLimit st)"
    using fr waitForRateLimit_post(2,3) [OF w] by (simp_all add: l_def)
  ultimately show ?thesis using Page by blast
qed

text \<open>
  Claim C3, as amended. After a page, the loop stops exactly when the gateway erred, or the
  page held no id that the ledger lacks, or it held fewer than 50 records, or it held at
  least one id that the ledger has: then the request for this offset is the last one. In
  every other case (a page of 50 or more records, none of them in the ledger) all records
  are merged, the loop goes on with the offset advanced by 50, and whenever it returns, the
  request after this one was for that offset.
\<close>

theorem sync_stop_rule:
  assumes "0 < decayRate (rateLimit st)" and "2 \<le> maxCounter (rateLimit st)"
    and "\<forall>es. gw off = Page es \<longrightarrow> distinct (map fst es)"
  shows "if stopsAfter (th_trades (fullTradeHistory st)) (gw off)
     then \<exists>c st'. fetchLoop (Suc (Suc (Suc fuel))) lat gw off cnt False st = Some (c, st')
            \<and> fetched st' = fetched st @ [off]
     else \<exists>es st3. gw off = Page es
            \<and> th_trades (fullTradeHistory st3) = th_trades (fullTradeHistory st) @ es
            \<and> fetched st3 = fetched st @ [off]
            \<and> decayRate (rateLimit st3) = decayRate (rateLimit st)
            \<and> maxCounter (rateLimit st3) = maxCounter (rateLimit st)
            \<and> fetchLoop (Suc (Suc (Suc fuel))) lat gw off cnt False st
                = fetchLoop (Suc (Suc fuel)) lat gw (off + 50) (cnt + length es) False st3
            \<and> (\<forall>c st'. fetchLoop (Suc (Suc fuel)) lat gw (off + 50) (cnt + length es)
                          False st3 = Some (c, st')
                  \<longrightarrow> (\<exists>rest. fetched st' = fetched st @ off # (off + 50) # rest))"
proof (cases "stopsAfter (th_trades (fullTradeHistory st)) (gw off)")
  case True
  with fetchLoop_stops [where gw = gw and off = off, OF assms True] show ?thesis
    by (simp only: if_True)
next
  case False
  from fetchLoop_continues [where gw = gw and off = off, OF assms False] obtain es st3 where
    p: "gw off = Page es"
       "th_trades (fullTradeHistory st3) = th_trades (fullTradeHistory st) @ es"
       "fetched st3 = fetched st @ [off]"
       "decayRate (rateLimit st3) = decayRate (rateLimit st)"
       "maxCounter (rateLimit st3) = maxCounter (rateLimit st)"
       "fetchLoop (Suc (Suc (Suc fuel))) lat gw off cnt False st
          = fetchLoop (Suc (Suc fuel)) lat gw (off + 50) (cnt + length es) False st3"
    by blast
  have "\<exists>rest. fetched st' = fetched st @ off # (off + 50) # rest"
    if "fetchLoop (Suc (Suc fuel)) lat gw (off + 50) (cnt + length es) False st3
          = Some (c, st')" for c st'
    using fetchLoop_requests [OF that] p(3) by simp
  with p False show ?thesis
    by (simp only: if_False) blast
qed

lemma fetchLoop_error_as_empty:
  "gw off0 = GatewayError \<Longrightarrow>
     fetchLoop fuel lat (gw(off0 := Page [])) off cnt hit st = fetchLoop fuel lat gw off cnt hit st"
proof (induction fuel arbitrary: off cnt hit st)
  case 0
  show ?case by (simp add: fetchLoop.simps)
next
  case (Suc fuel)
  let ?gw = "gw(off0 := Page [])"
  show ?case
  proof (cases hit)
    case True
    then show ?thesis by (simp only: fetchLoop_hit)
  next
    case False
    show ?thesis
    proof (cases "waitForRateLimit fuel lat 2 st")
      case None
      with False show ?thesis by (simp only: fetchLoop_nowait)
    next
      case (Some st1)
      show ?thesis
      proof (cases "off = off0")
        case True
        have p: "?gw off = Page []" using True by simp
        have m: "mergeEntries [] (th_trades (fullTradeHistory st1), 0, cnt, False)
                   = (th_trades (fullTradeHistory st1), 0, cnt, False)"
          by simp
        have "fetchLoop (Suc fuel) lat ?gw off cnt False st = Some (cnt, requested off st1)"
          using fetchLoop_page [where gw = ?gw and off = off, OF Some p m] by simp
        moreover have "fetchLoop (Suc fuel) lat gw off cnt False st = Some (cnt, requested off st1)"
          using fetchLoop_error [where gw = gw and off = off, OF Some] Suc.prems True by simp
        ultimately show ?thesis using False by (simp only:)
      next
        case ne: False
        then have same: "?gw off = gw off" by simp
        show ?thesis
        proof (cases "gw off")
          case GatewayError
          with same have "?gw off = GatewayError" by simp
          from fetchLoop_error [where gw = ?gw and off = off, OF Some this]
            fetchLoop_error [where gw = gw and off = off, OF Some GatewayError] False
          show ?thesis by (simp only:)
        next
          case (Page es)
          with same have p: "?gw off = Page es" by simp
          obtain l n c h where
            m: "mergeEntries es (th_trades (fullTradeHistory st1), 0, cnt, False) = (l, n, c, h)"
            by (cases "mergeEntries es (th_trades (fullTradeHistory st1), 0, cnt, False)") auto
          from fetchLoop_page [where gw = ?gw and off = off, OF Some p m]
            fetchLoop_page [where gw = gw and off = off, OF Some Page m] False
            Suc.IH [OF Suc.prems]
          show ?thesis by (simp only:)
        qed
      qed
    qed
  qed
qed

lemma concat_pages_Suc:
  "concat (map pg [0..<Suc k]) = pg 0 @ concat (map (\<lambda>j. pg (Suc j)) [0..<k])"
proof -
  have "[0..<Suc k] = 0 # map Suc [0..<k]"
    by (simp add: upt_conv_Cons map_Suc_upt del: upt_Suc)
  then show ?thesis
    by (simp add: comp_def del: upt_Suc)
qed

lemma offsets_Suc:
  "map (\<lambda>j. off + 50 * j) [0..<Suc (Suc k)]
     = off # map (\<lambda>j. (off + 50) + 50 * j) [0..<Suc k]"
proof -
  have "[0..<Suc (Suc k)] = 0 # map Suc [0..<Suc k]"
    by (simp add: upt_conv_Cons map_Suc_upt del: upt_Suc)
  then show ?thesis
    by (simp add: comp_def del: upt_Suc)
qed

lemma fetchLoop_fresh_pages:
  assumes "0 < decayRate (rateLimit st)" "2 \<le> maxCounter (rateLimit st)"
    and "\<forall>j<k. gw (off + 50 * j) = Page (pg j) \<and> length (pg j) = 50"
    and "distinct (map fst (th_trades (fullTradeHistory st) @ concat (map pg [0..<k])))"
    and "gw (off + 50 * k) = GatewayError"
  shows "\<exists>st'. fetchLoop (k + 3 + fuel) lat gw off cnt False st = Some (cnt + 50 * k, st')
     \<and> th_trades (fullTradeHistory st') = th_trades (fullTradeHistory st) @ concat (map pg [0..<k])
     \<and> fetched st' = fetched st @ map (\<lambda>j. off + 50 * j) [0..<Suc k]
     \<and> wallClock st \<le> wallClock st'"
  using assms
proof (induction k arbitrary: off cnt st pg)
  case 0
  from waitForRateLimit_returns [OF "0.prems"(1,2)] obtain st1 where
    w: "waitForRateLimit (Suc (Suc fuel)) lat 2 st = Some st1"
    by blast
  note fr = waitForRateLimit_frame [OF w]
  from "0.prems"(5) have e: "gw off = GatewayError" by simp
  have "fetchLoop (0 + 3 + fuel) lat gw off cnt False st = Some (cnt, requested off st1)"
    using fetchLoop_error [where gw = gw and off = off, OF w e] by (simp add: numeral_3_eq_3)
  moreover have "wallClock st \<le> wallClock (requested off st1)"
    using waitForRateLimit_post(5) [OF w "0.prems"(1)] by simp
  ultimately show ?case
    using fr by simp
next
  case (Suc k)
  have fu: "Suc k + 3 + fuel = Suc (Suc (Suc (k + 1 + fuel)))"
    by simp
  from waitForRateLimit_returns [OF Suc.prems(1,2)] obtain st1 where
    w: "waitForRateLimit (Suc (Suc (k + 1 + fuel))) lat 2 st = Some st1"
    by blast
  note fr = waitForRateLimit_frame [OF w]
  note po = waitForRateLimit_post [OF w]
  define l where "l = th_trades (fullTradeHistory st)"
  define new where "new = filter (\<lambda>e. map_of l (fst e) = None) (pg 0)"
  from Suc.prems(3) [rule_format, of 0] have p0: "gw off = Page (pg 0)"
    and len: "length (pg 0) = 50"
    by simp_all
  from Suc.prems(4) have
    dl: "distinct (map fst (l @ pg 0 @ concat (map (\<lambda>j. pg (Suc j)) [0..<k])))"
    unfolding l_def concat_pages_Suc .
  then have d0: "distinct (map fst (pg 0))"
    and fresh: "\<forall>e\<in>set (pg 0). map_of l (fst e) = None"
    by (auto simp: map_of_eq_None_iff)
  from fresh have n: "new = pg 0"
    unfolding new_def by (simp add: filter_id_conv)
  from len have "pg 0 \<noteq> []" by auto
  then obtain e0 where "e0 \<in> set (pg 0)" by (cases "pg 0") auto
  with fresh have c1: "\<not> (\<forall>e\<in>set (pg 0). map_of l (fst e) \<noteq> None)"
    by blast
  have c2: "\<not> length (pg 0) < 50" using len by simp
  from c1 c2 have c: "\<not> ((\<forall>e\<in>set (pg 0). map_of l (fst e) \<noteq> None) \<or> length (pg 0) < 50)"
    by blast
  from fresh have nk: "\<not> (\<exists>e\<in>set (pg 0). map_of l (fst e) \<noteq> None)"
    by (simp del: not_None_eq)
  let ?s = "withLedger (l @ pg 0) (requested off st1)"
  from fetchLoop_one_page [where gw = gw and off = off, OF w p0 d0 l_def new_def, of cnt] c
  have "fetchLoop (Suc (Suc (Suc (k + 1 + fuel)))) lat gw off cnt False st
          = fetchLoop (Suc (Suc (k + 1 + fuel))) lat gw (off + 50) (cnt + length new)
              (\<exists>e\<in>set (pg 0). map_of l (fst e) \<noteq> None) (withLedger (l @ new) (requested off st1))"
    by (simp only: if_False)
  with nk n len have step: "fetchLoop (Suc k + 3 + fuel) lat gw off cnt False st
          = fetchLoop (k + 3 + fuel) lat gw (off + 50) (cnt + 50) False ?s"
    unfolding fu by (simp add: numeral_3_eq_3)
  have r1: "0 < decayRate (rateLimit ?s)" and r2: "2 \<le> maxCounter (rateLimit ?s)"
    using po(2,3) Suc.prems(1,2) by simp_all
  have p': "\<forall>j<k. gw (off + 50 + 50 * j) = Page (pg (Suc j)) \<and> length (pg (Suc j)) = 50"
  proof (intro allI impI)
    fix j assume "j < k"
    then have "Suc j < Suc k" by simp
    with Suc.prems(3) have "gw (off + 50 * Suc j) = Page (pg (Suc j)) \<and> length (pg (Suc j)) = 50"
      by blast
    then show "gw (off + 50 + 50 * j) = Page (pg (Suc j)) \<and> length (pg (Suc j)) = 50"
      by (simp add: add.assoc)
  qed
  have d': "distinct (map fst (th_trades (fullTradeHistory ?s)
                @ concat (map (\<lambda>j. pg (Suc j)) [0..<k])))"
    using dl by simp
  have e': "gw (off + 50 + 50 * k) = GatewayError"
    using Suc.prems(5) by (simp add: add.assoc)
  from Suc.IH [OF r1 r2 p' d' e', of "cnt + 50"] obtain st' where
    ih: "fetchLoop (k + 3 + fuel) lat gw (off + 50) (cnt + 50) False ?s
           = Some (cnt + 50 + 50 * k, st')"
        "th_trades (fullTradeHistory st')
           = th_trades (fullTradeHistory ?s) @ concat (map (\<lambda>j. pg (Suc j)) [0..<k])"
        "fetched st' = fetched ?s @ map (\<lambda>j. off + 50 + 50 * j) [0..<Suc k]"
        "wallClock ?s \<le> wallClock st'"
    by blast
  have "fetchLoop (Suc k + 3 + fuel) lat gw off cnt False st = Some (cnt + 50 * Suc k, st')"
    using step ih(1) by simp
  moreover have "th_trades (fullTradeHistory st')
      = th_trades (fullTradeHistory st) @ concat (map pg [0..<Suc k])"
    unfolding ih(2) concat_pages_Suc by (simp add: l_def)
  moreover have "fetched st' = fetched st @ map (\<lambda>j. off + 50 * j) [0..<Suc (Suc k)]"
    unfolding ih(3) offsets_Suc using fr by simp
  moreover have "wallClock st \<le> wallClock st'"
    using ih(4) po(5) [OF Suc.prems(1)] by simp
  ultimately show ?case by blast
qed

lemma fetchNewTrades_error_as_empty:
  "gw off0 = GatewayError \<Longrightarrow>
     fetchNewTrades fuel lat (gw(off0 := Page [])) st = fetchNewTrades fuel lat gw st"
  by (simp only: fetchNewTrades_def fetchLoop_error_as_empty)

lemma sync_error_run:
  assumes r: "0 < decayRate (rateLimit st)" "2 \<le> maxCounter (rateLimit st)"
    and k: "0 < k"
    and p: "\<forall>j<k. gw (50 * j) = Page (pg j) \<and> length (pg j) = 50"
    and d: "distinct (map fst (th_trades (fullTradeHistory st) @ concat (map pg [0..<k])))"
    and e: "gw (50 * k) = GatewayError"
  shows "\<exists>st'. fetchNewTrades (k + 3 + fuel) lat gw st = Some (fullTradeHistory st', st')
     \<and> fetched st' = fetched st @ map (\<lambda>j. 50 * j) [0..<Suc k]
     \<and> th_trades (fullTradeHistory st')
         = th_trades (fullTradeHistory st) @ concat (map pg [0..<k])
     \<and> th_totalCount (fullTradeHistory st') = length (th_trades (fullTradeHistory st'))
     \<and> (\<exists>now. th_lastFetchTime (fullTradeHistory st') = Some now \<and> wallClock st \<le> now)
     \<and> SaveTradeHistory (fullTradeHistory st') \<in> set (saved st')
     \<and> fetchNewTrades (k + 3 + fuel) lat (gw(50 * k := Page [])) st
         = Some (fullTradeHistory st', st')"
proof -
  have p': "\<forall>j<k. gw (0 + 50 * j) = Page (pg j) \<and> length (pg j) = 50"
    using p by simp
  have e': "gw (0 + 50 * k) = GatewayError"
    using e by simp
  from fetchLoop_fresh_pages [where gw = gw and off = 0 and cnt = 0, OF r p' d e'] obtain st1 where
    l: "fetchLoop (k + 3 + fuel) lat gw 0 0 False st = Some (50 * k, st1)"
    and t: "th_trades (fullTradeHistory st1)
              = th_trades (fullTradeHistory st) @ concat (map pg [0..<k])"
    and f: "fetched st1 = fetched st @ map (\<lambda>j. 50 * j) [0..<Suc k]"
    and c: "wallClock st \<le> wallClock st1"
    by auto
  have pos: "0 < 50 * k" using k by simp
  let ?s = "afterLoop lat (50 * k) st1"
  note a = afterLoop_some [OF pos, where lat = lat and ?st1.0 = st1]
  have run: "fetchNewTrades (k + 3 + fuel) lat gw st = Some (fullTradeHistory ?s, ?s)"
    by (rule fetchNewTrades_unfold [OF l])
  moreover have "fetched ?s = fetched st @ map (\<lambda>j. 50 * j) [0..<Suc k]"
    using a(4) f by simp
  moreover have "th_trades (fullTradeHistory ?s)
                   = th_trades (fullTradeHistory st) @ concat (map pg [0..<k])"
    using a(1) t by simp
  moreover have "th_totalCount (fullTradeHistory ?s) = length (th_trades (fullTradeHistory ?s))"
    using a(1,2) by simp
  moreover have "\<exists>now. th_lastFetchTime (fullTradeHistory ?s) = Some now \<and> wallClock st \<le> now"
    using a(3) c by simp
  moreover have "SaveTradeHistory (fullTradeHistory ?s) \<in> set (saved ?s)"
    using a(6) by simp
  moreover have "fetchNewTrades (k + 3 + fuel) lat (gw(50 * k := Page [])) st
                   = Some (fullTradeHistory ?s, ?s)"
    using fetchNewTrades_error_as_empty [where gw = gw and ?off0.0 = "50 * k", OF e] run by (simp only:)
  ultimately show ?thesis by blast
qed

text \<open>
  Claim C1, as amended. If \<open>k \<ge> 1\<close> page requests return full pages of records that are
  all new and the next request returns a gateway error, the sync stops with that request,
  every merged record is in the ledger, \<open>totalCount\<close> is the number of entries,
  \<open>lastFetchTime\<close> is set to a clock reading of this call, the ledger is saved, and the call
  returns the ledger: the same result, in the same state, as when the failing request had
  returned an empty page.
\<close>

theorem sync_error_keeps_progress:
  assumes "0 < decayRate (rateLimit st)" and "2 \<le> maxCounter (rateLimit st)"
    and "0 < k"
    and "\<forall>j<k. gw (50 * j) = Page (pg j) \<and> length (pg j) = 50"
    and "distinct (map fst (th_trades (fullTradeHistory st) @ concat (map pg [0..<k])))"
    and "gw (50 * k) = GatewayError"
  shows "\<exists>st'. fetchNewTrades (k + 3 + fuel) lat gw st = Some (fullTradeHistory st', st')
     \<and> fetched st' = fetched st @ map (\<lambda>j. 50 * j) [0..<Suc k]
     \<and> th_trades (fullTradeHistory st')
         = th_trades (fullTradeHistory st) @ concat (map pg [0..<k])
     \<and> th_totalCount (fullTradeHistory st') = length (th_trades (fullTradeHistory st'))
     \<and> (\<exists>now. th_lastFetchTime (fullTradeHistory st') = Some now \<and> wallClock st \<le> now)
     \<and> SaveTradeHistory (fullTradeHistory st') \<in> set (saved st')
     \<and> fetchNewTrades (k + 3 + fuel) lat (gw(50 * k := Page [])) st
         = Some (fullTradeHistory st', st')"
  using assms by (rule sync_error_run)

lemma tid_inj: "tid a = tid b \<longleftrightarrow> a = b"
proof
  assume "tid a = tid b"
  then have "length (tid a) = length (tid b)" by simp
  then show "a = b" by (simp add: tid_def)
qed simp

lemma K_not_tid: "''K'' \<noteq> tid k"
  by (simp add: tid_def)

lemma distinct_tids: "distinct (map tid [a..<b])"
  by (simp add: distinct_map inj_on_def tid_inj)

lemma K_not_in_tids: "''K'' \<notin> tid ` S"
  using K_not_tid by blast

lemma scenario_rate:
  "0 < decayRate (rateLimit scenarioState)" "2 \<le> maxCounter (rateLimit scenarioState)"
  "fetched scenarioState = []" "saved scenarioState = []" "wallClock scenarioState = 2000"
  "th_trades (fullTradeHistory scenarioState) = [(''K'', knownTrade)]"
  "th_lastFetchTime (fullTradeHistory scenarioState) = Some 1000"
  "pairs scenarioState = Map.empty"
  by (simp_all add: scenarioState_def initialState_def)

lemma scenarioD_facts:
  "\<forall>j<1. scenarioD (50 * j) = Page ((\<lambda>j. freshPage) j) \<and> length ((\<lambda>j. freshPage) j) = 50"
  "distinct (map fst (th_trades (fullTradeHistory scenarioState)
                        @ concat (map (\<lambda>j. freshPage) [0..<1])))"
  "scenarioD (50 * 1) = GatewayError"
  by (simp_all add: scenarioD_def freshPage_def scenario_rate comp_def distinct_tids
        K_not_in_tids)

theorem sync_error_keeps_progress_witness:
  "\<exists>st'. fetchNewTrades 4 noLatency scenarioD scenarioState = Some (fullTradeHistory st', st')
     \<and> fetched st' = [0, 50]
     \<and> th_trades (fullTradeHistory st') = (''K'', knownTrade) # freshPage
     \<and> th_totalCount (fullTradeHistory st') = 51
     \<and> (\<exists>now. th_lastFetchTime (fullTradeHistory st') = Some now \<and> 2000 \<le> now)
     \<and> SaveTradeHistory (fullTradeHistory st') \<in> set (saved st')
     \<and> fetchNewTrades 4 noLatency (scenarioD(50 := Page [])) scenarioState
         = Some (fullTradeHistory st', st')"
proof -
  have "0 < (1::nat)" by simp
  from sync_error_keeps_progress [where gw = scenarioD and st = scenarioState and k = 1
      and pg = "\<lambda>j. freshPage" and fuel = 0 and lat = noLatency,
      OF scenario_rate(1,2) this scenarioD_facts]
  obtain st' where
    "fetchNewTrades 4 noLatency scenarioD scenarioState = Some (fullTradeHistory st', st')"
    "fetched st' = fetched scenarioState @ map (\<lambda>j. 50 * j) [0..<Suc 1]"
    "th_trades (fullTradeHistory st')
       = th_trades (fullTradeHistory scenarioState) @ concat (map (\<lambda>j. freshPage) [0..<1])"
    "th_totalCount (fullTradeHistory st') = length (th_trades (fullTradeHistory st'))"
    "\<exists>now. th_lastFetchTime (fullTradeHistory st') = Some now \<and> wallClock scenarioState \<le> now"
    "SaveTradeHistory (fullTradeHistory st') \<in> set (saved st')"
    "fetchNewTrades 4 noLatency (scenarioD(50 := Page [])) scenarioState
       = Some (fullTradeHistory st', st')"
    by auto
  then show ?thesis
    by (intro exI [of _ st']) (simp add: scenario_rate freshPage_def)
qed

text \<open>
  Claim C1 as stated fails. The first page brings fifty new records and the second request
  fails. The call returns; \<open>lastFetchTime\<close>, 1000 before the call, is not 1000 in the
  ledger it returns; and what it returns is what it returns when the second request
  succeeds with an empty page, so nothing tells the caller that the sync failed.
\<close>

theorem sync_error_updates_lastFetchTime:
  "th_lastFetchTime (fullTradeHistory scenarioState) = Some 1000
   \<and> fetchNewTrades 4 noLatency scenarioD scenarioState \<noteq> None
   \<and> map_option (th_lastFetchTime \<circ> fst) (fetchNewTrades 4 noLatency scenarioD scenarioState)
       \<noteq> Some (Some 1000)
   \<and> fetchNewTrades 4 noLatency scenarioD scenarioState
       = fetchNewTrades 4 noLatency (scenarioD(50 := Page [])) scenarioState"
proof -
  have "0 < (1::nat)" by simp
  from sync_error_run [where gw = scenarioD and st = scenarioState and k = 1
      and pg = "\<lambda>j. freshPage" and fuel = 0 and lat = noLatency,
      OF scenario_rate(1,2) this scenarioD_facts]
  obtain st' now where
    "fetchNewTrades 4 noLatency scenarioD scenarioState = Some (fullTradeHistory st', st')"
    "th_lastFetchTime (fullTradeHistory st') = Some now" "wallClock scenarioState \<le> now"
    "fetchNewTrades 4 noLatency (scenarioD(50 := Page [])) scenarioState
       = Some (fullTradeHistory st', st')"
    by auto
  then show ?thesis
    by (simp add: scenario_rate)
qed

lemma tid0_in_page:
  "0 < n \<Longrightarrow> (tid 0, newTrade 0) \<in> set (map (\<lambda>k. (tid k, newTrade k)) [0..<n])"
  by (auto intro!: image_eqI [of _ _ 0])

lemma mixed_facts:
  "mixedGateway 0 = Page mixedPage"
  "length mixedPage = 50"
  "distinct (map fst mixedPage)"
  "(''K'', knownTrade) \<in> set mixedPage"
  "(tid 0, newTrade 0) \<in> set mixedPage"
  "map_of (th_trades (fullTradeHistory scenarioState)) ''K'' \<noteq> None"
  "map_of (th_trades (fullTradeHistory scenarioState)) (tid 0) = None"
proof -
  show "mixedGateway 0 = Page mixedPage" by (simp add: mixedGateway_def)
  show "length mixedPage = 50" by (simp add: mixedPage_def)
  show "distinct (map fst mixedPage)"
    by (simp add: mixedPage_def comp_def distinct_tids K_not_in_tids)
  show "(''K'', knownTrade) \<in> set mixedPage" by (simp add: mixedPage_def)
  show "(tid 0, newTrade 0) \<in> set mixedPage"
    unfolding mixedPage_def using tid0_in_page [of 49] by simp
  show "map_of (th_trades (fullTradeHistory scenarioState)) ''K'' \<noteq> None"
    by (simp add: scenario_rate)
  show "map_of (th_trades (fullTradeHistory scenarioState)) (tid 0) = None"
    by (simp add: scenario_rate K_not_tid [symmetric])
qed

text \<open>
  Claim C3 as stated fails. The first page holds 50 records, one known to the ledger and
  49 new ones; the remote has more behind it. None of the specification's stop conditions
  holds, and the sync makes the request for offset 0 and no other.
\<close>

theorem mixed_page_stops_sync:
  "mixedGateway 0 = Page mixedPage \<and> length mixedPage = 50
   \<and> (''K'', knownTrade) \<in> set mixedPage
   \<and> map_of (th_trades (fullTradeHistory scenarioState)) ''K'' \<noteq> None
   \<and> (tid 0, newTrade 0) \<in> set mixedPage
   \<and> map_of (th_trades (fullTradeHistory scenarioState)) (tid 0) = None
   \<and> \<not> spec_stopsAfter (th_trades (fullTradeHistory scenarioState)) (mixedGateway 0)
   \<and> map_option (fetched \<circ> snd) (fetchNewTrades 3 noLatency mixedGateway scenarioState)
       = Some [0]"
proof -
  have d: "\<forall>es. mixedGateway 0 = Page es \<longrightarrow> distinct (map fst es)"
    using mixed_facts(1,3) by simp
  have k: "\<exists>e\<in>set mixedPage. map_of (th_trades (fullTradeHistory scenarioState)) (fst e) \<noteq> None"
    using mixed_facts(4,6) by (intro bexI [of _ "(''K'', knownTrade)"]) simp_all
  have "\<exists>e\<in>set mixedPage. map_of (th_trades (fullTradeHistory scenarioState)) (fst e) = None"
    by (rule bexI [OF _ mixed_facts(5)]) (simp add: mixed_facts(7))
  then have n: "\<not> (\<forall>e\<in>set mixedPage.
                     map_of (th_trades (fullTradeHistory scenarioState)) (fst e) \<noteq> None)"
    by blast
  have s: "stopsAfter (th_trades (fullTradeHistory scenarioState)) (mixedGateway 0)"
    unfolding stopsAfter_def mixed_facts(1) using k by (simp only: response.case) blast
  have ns: "\<not> spec_stopsAfter (th_trades (fullTradeHistory scenarioState)) (mixedGateway 0)"
    unfolding spec_stopsAfter_def mixed_facts(1) using n mixed_facts(2)
    by (simp only: response.case) simp
  from fetchLoop_stops [where gw = mixedGateway and off = 0 and cnt = 0 and fuel = 0
      and lat = noLatency, OF scenario_rate(1,2) d s]
  obtain c st1 where
    l: "fetchLoop (Suc (Suc (Suc 0))) noLatency mixedGateway 0 0 False scenarioState = Some (c, st1)"
    and f: "fetched st1 = fetched scenarioState @ [0]"
    by blast
  have "fetchNewTrades (Suc (Suc (Suc 0))) noLatency mixedGateway scenarioState
          = Some (fullTradeHistory (afterLoop noLatency c st1), afterLoop noLatency c st1)"
    by (rule fetchNewTrades_unfold [OF l])
  then have "map_option (fetched \<circ> snd) (fetchNewTrades 3 noLatency mixedGateway scenarioState)
               = Some [0]"
    using f by (simp add: numeral_3_eq_3 afterLoop_fetched scenario_rate)
  with ns mixed_facts show ?thesis
    by (simp only: simp_thms)
qed

theorem sync_stop_rule_witness:
  "\<not> stopsAfter (th_trades (fullTradeHistory scenarioState)) (scenarioD 0)
   \<and> (\<exists>c st'. fetchLoop 4 noLatency scenarioD 0 0 False scenarioState = Some (c, st')
               \<and> (\<exists>rest. fetched st' = 0 # 50 # rest))"
proof -
  have p: "scenarioD 0 = Page freshPage" by (simp add: scenarioD_def)
  have d: "\<forall>es. scenarioD 0 = Page es \<longrightarrow> distinct (map fst es)"
    unfolding p by (simp add: freshPage_def comp_def distinct_tids)
  have fresh: "\<forall>e\<in>set freshPage. map_of (th_trades (fullTradeHistory scenarioState)) (fst e) = None"
    by (auto simp: freshPage_def scenario_rate K_not_tid [symmetric])
  have "(tid 0, newTrade 0) \<in> set freshPage"
    unfolding freshPage_def using tid0_in_page [of 50] by simp
  with fresh have "\<not> (\<forall>e\<in>set freshPage.
                         map_of (th_trades (fullTradeHistory scenarioState)) (fst e) \<noteq> None)"
    by blast
  moreover from fresh have "\<not> (\<exists>e\<in>set freshPage.
               map_of (th_trades (fullTradeHistory scenarioState)) (fst e) \<noteq> None)"
    by (simp del: not_None_eq)
  moreover have "\<not> length freshPage < 50" by (simp add: freshPage_def)
  ultimately have ns: "\<not> stopsAfter (th_trades (fullTradeHistory scenarioState)) (scenarioD 0)"
    unfolding stopsAfter_def p by (simp only: response.case) blast
  from sync_stop_rule [where st = scenarioState and gw = scenarioD and off = 0 and fuel = 1
      and cnt = 0 and lat = noLatency, OF scenario_rate(1,2) d] ns
  have "\<exists>es st3. scenarioD 0 = Page es
            \<and> th_trades (fullTradeHistory st3) = th_trades (fullTradeHistory scenarioState) @ es
            \<and> fetched st3 = fetched scenarioState @ [0]
            \<and> decayRate (rateLimit st3) = decayRate (rateLimit scenarioState)
            \<and> maxCounter (rateLimit st3) = maxCounter (rateLimit scenarioState)
            \<and> fetchLoop (Suc (Suc (Suc 1))) noLatency scenarioD 0 0 False scenarioState
                = fetchLoop (Suc (Suc 1)) noLatency scenarioD (0 + 50) (0 + length es) False st3
            \<and> (\<forall>c st'. fetchLoop (Suc (Suc 1)) noLatency scenarioD (0 + 50) (0 + length es)
                          False st3 = Some (c, st')
                  \<longrightarrow> (\<exists>rest. fetched st' = fetched scenarioState @ 0 # (0 + 50) # rest))"
    by (simp only: if_False)
  then obtain es st3 where
    all: "scenarioD 0 = Page es
            \<and> th_trades (fullTradeHistory st3) = th_trades (fullTradeHistory scenarioState) @ es
            \<and> fetched st3 = fetched scenarioState @ [0]
            \<and> decayRate (rateLimit st3) = decayRate (rateLimit scenarioState)
            \<and> maxCounter (rateLimit st3) = maxCounter (rateLimit scenarioState)
            \<and> fetchLoop (Suc (Suc (Suc 1))) noLatency scenarioD 0 0 False scenarioState
                = fetchLoop (Suc (Suc 1)) noLatency scenarioD (0 + 50) (0 + length es) False st3
            \<and> (\<forall>c st'. fetchLoop (Suc (Suc 1)) noLatency scenarioD (0 + 50) (0 + length es)
                          False st3 = Some (c, st')
                  \<longrightarrow> (\<exists>rest. fetched st' = fetched scenarioState @ 0 # (0 + 50) # rest))"
    by (elim exE) (rule that)
  note tl3 = all [THEN conjunct2, THEN conjunct2, THEN conjunct2]
  note r = tl3 [THEN conjunct1] tl3 [THEN conjunct2, THEN conjunct1]
  note c = tl3 [THEN conjunct2, THEN conjunct2, THEN conjunct1]
  note i = tl3 [THEN conjunct2, THEN conjunct2, THEN conjunct2]
  have r3: "0 < decayRate (rateLimit st3)" "2 \<le> maxCounter (rateLimit st3)"
    using r scenario_rate(1,2) by simp_all
  have e: "scenarioD (0 + 50) = GatewayError" by (simp add: scenarioD_def)
  have d3: "\<forall>es. scenarioD (0 + 50) = Page es \<longrightarrow> distinct (map fst es)"
    unfolding e by simp
  have s3: "stopsAfter (th_trades (fullTradeHistory st3)) (scenarioD (0 + 50))"
    unfolding e by (simp add: stopsAfter_def)
  from fetchLoop_stops [where gw = scenarioD and off = "0 + 50" and cnt = "0 + length es"
      and fuel = 0 and lat = noLatency, OF r3 d3 s3]
  obtain c' st' where
    l: "fetchLoop (Suc (Suc (Suc 0))) noLatency scenarioD (0 + 50) (0 + length es) False st3
          = Some (c', st')"
    by blast
  then have l': "fetchLoop (Suc (Suc 1)) noLatency scenarioD (0 + 50) (0 + length es) False st3
          = Some (c', st')"
    by simp
  with i have "\<exists>rest. fetched st' = fetched scenarioState @ 0 # (0 + 50) # rest"
    by blast
  then have "\<exists>rest. fetched st' = 0 # 50 # rest"
    by (simp add: scenario_rate)
  moreover have "fetchLoop 4 noLatency scenarioD 0 0 False scenarioState = Some (c', st')"
    using c l' by (simp add: eval_nat_numeral)
  ultimately show ?thesis using ns by blast
qed

theorem converged_sync_one_fetch_witness:
  "\<exists>st'. fetchNewTrades 3 noLatency unchangedGateway scenarioState
            = Some (fullTradeHistory scenarioState, st')
     \<and> fullTradeHistory st' = fullTradeHistory scenarioState
     \<and> fetched st' = [0]
     \<and> saved st' = [SaveCostBasis (costBasis st'), SaveAnalytics (tradeAnalytics st')]"
proof -
  have k: "\<forall>off es. unchangedGateway off = Page es \<longrightarrow>
           (\<forall>e\<in>set es. map_of (th_trades (fullTradeHistory scenarioState)) (fst e) \<noteq> None)"
    by (auto simp: unchangedGateway_def scenario_rate)
  from converged_sync_one_fetch [where gw = unchangedGateway and st = scenarioState and fuel = 0
      and lat = noLatency, OF scenario_rate(1,2) k]
  show ?thesis
    by (simp add: numeral_3_eq_3 scenario_rate)
qed

theorem sync_rebuilds_always_witness:
  "\<exists>h st'. fetchNewTrades 3 noLatency errorGateway scenarioState = Some (h, st')
     \<and> h = fullTradeHistory st'
     \<and> fullTradeHistory st' = fullTradeHistory scenarioState
     \<and> costBasis st' = replay Map.empty [(''K'', knownTrade)]
     \<and> saved st' = [SaveCostBasis (costBasis st'), SaveAnalytics (tradeAnalytics st')]"
proof -
  have k: "\<forall>es. errorGateway 0 = Page es \<longrightarrow>
           (\<forall>e\<in>set es. map_of (th_trades (fullTradeHistory scenarioState)) (fst e) \<noteq> None)"
    by (simp add: errorGateway_def)
  from first_page_known [where gw = errorGateway and st = scenarioState and fuel = 0
      and lat = noLatency, OF scenario_rate(1,2) k]
  obtain st1 where
    w: "waitForRateLimit (Suc (Suc 0)) noLatency 2 scenarioState = Some st1"
    and l: "fetchLoop (Suc (Suc (Suc 0))) noLatency errorGateway 0 0 False scenarioState
              = Some (0, requested 0 st1)"
    by blast
  let ?s = "afterLoop noLatency 0 (requested 0 st1)"
  have run: "fetchNewTrades 3 noLatency errorGateway scenarioState
               = Some (fullTradeHistory ?s, ?s)"
    using fetchNewTrades_unfold [OF l] by (simp add: numeral_3_eq_3)
  have same: "fullTradeHistory ?s = fullTradeHistory scenarioState"
    using waitForRateLimit_frame [OF w] by (simp add: afterLoop_none)
  from sync_rebuilds_always [OF run] obtain sv where
    "costBasis ?s = replay (pairs scenarioState) (th_trades (fullTradeHistory ?s))"
    "saved ?s = saved scenarioState @ sv @ [SaveCostBasis (costBasis ?s),
                                             SaveAnalytics (tradeAnalytics ?s)]"
    "if th_trades (fullTradeHistory ?s) = th_trades (fullTradeHistory scenarioState)
     then sv = [] \<and> fullTradeHistory ?s = fullTradeHistory scenarioState
     else sv = [SaveTradeHistory (fullTradeHistory ?s)]
       \<and> th_totalCount (fullTradeHistory ?s) = length (th_trades (fullTradeHistory ?s))
       \<and> (\<exists>now. th_lastFetchTime (fullTradeHistory ?s) = Some now \<and> now \<le> wallClock ?s)"
    by blast
  with same run show ?thesis
    by (simp add: scenario_rate)
qed

end
